theory Spec2Isabelle
  imports Main
begin

section \<open>Shared declarations of the thread library\<close>

text \<open>
  The repository holds two revisions of the user-level thread library:
  \<^verbatim>\<open>A1/thread.c\<close>, where the thread control blocks themselves form a singly linked
  run list headed by the running thread, and \<^verbatim>\<open>A2/thread.c\<close>, where
  \<^verbatim>\<open>thread_create\<close>, \<^verbatim>\<open>thread_yield\<close>, \<^verbatim>\<open>thread_exit\<close> and \<^verbatim>\<open>thread_kill\<close> work on a
  fixed table \<^verbatim>\<open>threads[]\<close> and a separate list of ready nodes, while
  \<^verbatim>\<open>thread_sleep\<close> and \<^verbatim>\<open>thread_wakeup\<close> still follow the \<^verbatim>\<open>next\<close> pointers of the
  control blocks, which the functions of the table never write. Definitions are
  prefixed \<open>A1_\<close> and \<open>A2_\<close> after the file they embed.
\<close>

subsection \<open>Constants of thread.h\<close>

text \<open>
  Modelled from the spec: \<^verbatim>\<open>thread.h\<close> is not among the sources. The sentinels
  ("any", "self") and the failure results (invalid-target, no-runnable-thread,
  capacity-exhausted, out-of-memory) are distinct negative values of type \<^verbatim>\<open>Tid\<close>
  (a C \<^verbatim>\<open>int\<close>), so that none of them is a thread identifier.
  \<^verbatim>\<open>THREAD_MAX_THREADS\<close> is taken as a parameter: the length of the table in the A2
  functions, an explicit argument \<open>N\<close> in the A1 functions.
\<close>

definition THREAD_ANY :: int where "THREAD_ANY = -1"
definition THREAD_SELF :: int where "THREAD_SELF = -2"
definition THREAD_INVALID :: int where "THREAD_INVALID = -3"
definition THREAD_NONE :: int where "THREAD_NONE = -4"
definition THREAD_NOMORE :: int where "THREAD_NOMORE = -5"
definition THREAD_NOMEMORY :: int where "THREAD_NOMEMORY = -6"
definition THREAD_FAILED :: int where "THREAD_FAILED = -7"

text \<open>The cast \<^verbatim>\<open>(unsigned int) x\<close> of a 32-bit \<^verbatim>\<open>int\<close>.\<close>

definition to_unsigned :: "int \<Rightarrow> int" where
  "to_unsigned x = x mod 2 ^ 32"

subsection \<open>Saved execution contexts\<close>

text \<open>
  A \<^verbatim>\<open>ucontext_t\<close> is modelled by the program point it resumes at, together with the
  local variables of the suspended call that the code after that point reads:
  \<^item> \<open>Uninit\<close>: never written;
  \<^item> \<open>AtStub fn parg\<close>: set up by \<^verbatim>\<open>thread_create\<close>, resumes at \<^verbatim>\<open>thread_stub(fn, parg)\<close>;
  \<^item> \<open>A1_InYield want_tid wanted\<close>: saved by \<^verbatim>\<open>getcontext\<close> in A1's \<^verbatim>\<open>thread_yield\<close>;
  \<^item> \<open>A2_InYield want_tid enabled\<close>: saved by \<^verbatim>\<open>getcontext\<close> in A2's \<^verbatim>\<open>thread_yield\<close>;
  \<^item> \<open>A2_InSleep ret enabled new_head\<close>: saved by \<^verbatim>\<open>getcontext\<close> in A2's \<^verbatim>\<open>thread_sleep\<close>.
\<close>

datatype ctx =
    Uninit
  | AtStub nat nat
  | A1_InYield int nat
  | A2_InYield int bool
  | A2_InSleep int bool nat

text \<open>
  \<^verbatim>\<open>struct thread\<close>. A1 declares \<^verbatim>\<open>TID, thread_stack, next, state, context\<close>; A2 declares
  \<^verbatim>\<open>TID, thread_stack, wait_q, state, context\<close> and its \<^verbatim>\<open>thread_sleep\<close> and
  \<^verbatim>\<open>thread_wakeup\<close> read and write \<^verbatim>\<open>next\<close>; the record has the fields of both.
  In A2 a \<^verbatim>\<open>next\<close> pointer is \<^verbatim>\<open>NULL\<close> (the table is a zero-initialised global) until
  one of these two functions writes it.
  Pointers are \<open>nat option\<close>, \<open>None\<close> being \<^verbatim>\<open>NULL\<close>. The states are the ones of the
  source comment: 0 unused, 1 active, 2 waiting, 3 killed.
\<close>

record thread =
  TID :: int
  thread_stack :: "nat option"
  "next" :: "nat option"
  wait_q :: "nat option"
  state :: int
  "context" :: ctx

text \<open>
  How a function of the library ends, with the state it leaves:
  \<^item> \<open>Return v s\<close>: it returns \<open>v\<close> to its caller;
  \<^item> \<open>Done s\<close>: a \<^verbatim>\<open>void\<close> function returns;
  \<^item> \<open>Jump s\<close>: it executes \<^verbatim>\<open>setcontext\<close> on the context of the thread that is current in
    \<open>s\<close>, and control continues at the point saved there;
  \<^item> \<open>Enter fn parg s\<close>: \<^verbatim>\<open>thread_stub\<close> calls the entry function, \<^verbatim>\<open>fn(parg)\<close>: user code of
    the current thread runs;
  \<^item> \<open>Exit code s\<close>: \<^verbatim>\<open>exit(code)\<close> ends the process;
  \<^item> \<open>Abort\<close>: an \<^verbatim>\<open>assert\<close> fails;
  \<^item> \<open>Undefined s\<close>: control is sent to a context that the running code never wrote.
\<close>

datatype 's result =
    Return int 's
  | Done 's
  | Jump 's
  | Enter nat nat 's
  | Exit int 's
  | Abort
  | Undefined 's

subsection \<open>Interrupt gate and deferred frees\<close>

text \<open>
  The part of the global state that both revisions share: the two pending pointers
  \<^verbatim>\<open>to_free_1\<close>, \<^verbatim>\<open>to_free_2\<close> and (A2 only) the interrupt-enabled flag.
\<close>

record rt =
  interrupts_enabled :: bool
  to_free_1 :: "nat option"
  to_free_2 :: "nat option"

text \<open>
  Modelled from the spec: the interrupt-control facility (\<^verbatim>\<open>interrupt.h\<close>) is not among
  the sources. The spec describes it as a process-wide enable/disable gate whose prior
  value is saved and restored; \<^verbatim>\<open>interrupts_off\<close> and \<^verbatim>\<open>interrupts_set\<close> return the
  prior value of the flag.
\<close>

definition interrupts_off :: "'a rt_scheme \<Rightarrow> bool \<times> 'a rt_scheme" where
  "interrupts_off s = (interrupts_enabled s, s\<lparr>interrupts_enabled := False\<rparr>)"

definition interrupts_set :: "bool \<Rightarrow> 'a rt_scheme \<Rightarrow> bool \<times> 'a rt_scheme" where
  "interrupts_set b s = (interrupts_enabled s, s\<lparr>interrupts_enabled := b\<rparr>)"

definition interrupts_on :: "'a rt_scheme \<Rightarrow> bool \<times> 'a rt_scheme" where
  "interrupts_on s = interrupts_set True s"

text \<open>
  \<^verbatim>\<open>free_stuff\<close>: both pending pointers are handed to \<^verbatim>\<open>free\<close> and cleared. The
  allocator is external; only the pointers are part of the state.
\<close>

definition free_stuff :: "'a rt_scheme \<Rightarrow> 'a rt_scheme" where
  "free_stuff s = s\<lparr>to_free_1 := None, to_free_2 := None\<rparr>"

section \<open>A2/thread.c: the table of control blocks and the ready list\<close>

text \<open>
  A \<^verbatim>\<open>struct ready_node\<close> is the pair of its address and its \<^verbatim>\<open>tid\<close>; the list
  \<^verbatim>\<open>ready_head\<close> is the list of nodes in the order of their \<^verbatim>\<open>next\<close> pointers (the
  nodes are private to the list: nothing else points into it). \<^verbatim>\<open>current_thread\<close> is
  the \<^verbatim>\<open>Tid\<close> that indexes \<^verbatim>\<open>threads[]\<close>; it is the identifier of a slot of the table,
  and \<^verbatim>\<open>threads[tid]\<close> is read as \<open>threads s ! nat tid\<close> where the source has checked
  the range of \<open>tid\<close> or \<open>tid\<close> is \<^verbatim>\<open>current_thread\<close>.
\<close>

type_synonym ready_node = "nat \<times> int"

record a2_state = rt +
  threads :: "thread list"
  current_thread :: int
  ready_head :: "ready_node list"

text \<open>
  \<^verbatim>\<open>ready_enqueue(tid)\<close>; \<open>new_node\<close> is what \<^verbatim>\<open>malloc369\<close> returns for the node.
\<close>

definition ready_enqueue :: "nat option \<Rightarrow> int \<Rightarrow> a2_state \<Rightarrow> int \<times> a2_state" where
  "ready_enqueue new_node tid s =
     (case new_node of
        None \<Rightarrow> (1, s)
      | Some a \<Rightarrow> (0, s\<lparr>ready_head := ready_head s @ [(a, tid)]\<rparr>))"

text \<open>
  \<^verbatim>\<open>thread_init\<close>, for a table of \<open>N\<close> control blocks. The table is a global array,
  zero-initialised: the stacks are \<^verbatim>\<open>NULL\<close> and no context has been written.
\<close>

definition A2_thread_init :: "nat \<Rightarrow> a2_state \<Rightarrow> a2_state" where
  "A2_thread_init N s =
     (let ths = map (\<lambda>i. \<lparr>TID = int i, thread_stack = None, next = None, wait_q = None,
                          state = 0, context = Uninit\<rparr>) [0..<N]
      in s\<lparr>threads := ths[0 := (ths ! 0)\<lparr>state := 1\<rparr>], current_thread := 0\<rparr>)"

definition A2_thread_id :: "a2_state \<Rightarrow> int" where
  "A2_thread_id s = current_thread s"

text \<open>
  The search loop of \<^verbatim>\<open>thread_create\<close>:
  \<^verbatim>\<open>while (threads[new_tid].state != 0) { new_tid++; if (new_tid == MAX) return THREAD_NOMORE; }\<close>.
  The table is never empty, and the loop leaves through \<^verbatim>\<open>THREAD_NOMORE\<close> before
  \<open>new_tid\<close> reaches its length: every read of \<^verbatim>\<open>threads[new_tid]\<close> is in range.
\<close>

function A2_find_tid :: "thread list \<Rightarrow> nat \<Rightarrow> int" where
  "A2_find_tid ths new_tid =
     (if new_tid < length ths \<and> state (ths ! new_tid) \<noteq> 0 then
        (if Suc new_tid = length ths then THREAD_NOMORE
         else A2_find_tid ths (Suc new_tid))
      else int new_tid)"
  by pat_completeness auto
termination
  by (relation "measure (\<lambda>(ths, new_tid). length ths - new_tid)") auto

declare A2_find_tid.simps [simp del]

text \<open>
  \<^verbatim>\<open>thread_create(fn, parg)\<close>. \<open>stack\<close> is what \<^verbatim>\<open>malloc369(THREAD_MIN_STACK)\<close> returns,
  \<open>new_node\<close> what the \<^verbatim>\<open>malloc369\<close> of \<^verbatim>\<open>ready_enqueue\<close> returns. The early returns
  leave the function before \<^verbatim>\<open>interrupts_set(enabled)\<close>, as in the source.
\<close>

definition A2_thread_create ::
  "nat \<Rightarrow> nat \<Rightarrow> nat option \<Rightarrow> nat option \<Rightarrow> a2_state \<Rightarrow> int \<times> a2_state" where
  "A2_thread_create fn parg stack new_node s0 =
     (let enabled = fst (interrupts_off s0);
          s = snd (interrupts_off s0);
          r = A2_find_tid (threads s) 0
      in if r = THREAD_NOMORE then (THREAD_NOMORE, s)
         else
           let new_tid = nat r;
               s = s\<lparr>threads := (threads s)[new_tid :=
                      (threads s ! new_tid)\<lparr>TID := r, state := 1, thread_stack := stack\<rparr>]\<rparr>
           in if stack = None then (THREAD_NOMEMORY, s)
              else
                let s = s\<lparr>threads := (threads s)[new_tid :=
                           (threads s ! new_tid)\<lparr>context := AtStub fn parg\<rparr>]\<rparr>;
                    failed = fst (ready_enqueue new_node r s);
                    s = snd (ready_enqueue new_node r s)
                in if failed \<noteq> 0 then
                     (THREAD_NOMEMORY,
                      s\<lparr>threads := (threads s)[new_tid := (threads s ! new_tid)\<lparr>state := 0\<rparr>]\<rparr>)
                   else (r, snd (interrupts_set enabled s)))"

text \<open>
  \<^verbatim>\<open>thread_exit(exit_code)\<close>: it ends in \<^verbatim>\<open>exit\<close> or in \<^verbatim>\<open>setcontext\<close> on the thread
  taken from the head of the ready list.
\<close>

definition A2_thread_exit :: "int \<Rightarrow> a2_state \<Rightarrow> a2_state result" where
  "A2_thread_exit exit_code s0 =
     (let s = snd (interrupts_off s0);
          cur = nat (current_thread s);
          s = s\<lparr>threads := (threads s)[cur := (threads s ! cur)\<lparr>state := 0\<rparr>]\<rparr>
      in case ready_head s of
           [] \<Rightarrow> Exit exit_code (free_stuff s)
         | n # ns \<Rightarrow>
             let s = (if TID (threads s ! cur) \<noteq> 0
                      then s\<lparr>to_free_1 := thread_stack (threads s ! cur)\<rparr> else s)
             in Jump (s\<lparr>current_thread := snd n, to_free_2 := Some (fst n),
                        ready_head := ns\<rparr>))"

text \<open>
  The search of \<^verbatim>\<open>thread_yield\<close> for an explicit identifier, entered with \<^verbatim>\<open>curr\<close> at the
  first node of the list:
  \<^verbatim>\<open>while (curr->next != NULL && curr->next->tid != want_tid) curr = curr->next;\<close>
  followed by the unlinking of \<^verbatim>\<open>curr->next\<close>. The result is the unlinked node and the
  list without it, or \<open>None\<close> when the loop ends with \<^verbatim>\<open>curr->next == NULL\<close>.
\<close>

fun A2_unlink :: "int \<Rightarrow> ready_node list \<Rightarrow> (ready_node \<times> ready_node list) option" where
  "A2_unlink want_tid (c # n # ns) =
     (if snd n \<noteq> want_tid then
        (case A2_unlink want_tid (n # ns) of
           None \<Rightarrow> None
         | Some (d, l) \<Rightarrow> Some (d, c # l))
      else Some (n, c # ns))"
| "A2_unlink want_tid _ = None"

text \<open>
  The code of \<^verbatim>\<open>thread_yield\<close> after \<^verbatim>\<open>getcontext\<close>, from \<^verbatim>\<open>free_stuff()\<close> on. It runs
  when \<^verbatim>\<open>getcontext\<close> returns for the first time and again whenever the saved context is
  resumed; \<open>want_tid\<close> and \<open>enabled\<close> are the local variables of the call.
\<close>

definition A2_yield_resume :: "int \<Rightarrow> bool \<Rightarrow> a2_state \<Rightarrow> a2_state result" where
  "A2_yield_resume want_tid enabled s0 =
     (let s = free_stuff s0;
          cur = nat (current_thread s)
      in if state (threads s ! cur) = 3 then A2_thread_exit 0 s
         else if state (threads s ! cur) = 2 then
           Return want_tid
             (snd (interrupts_set enabled
                (s\<lparr>threads := (threads s)[cur := (threads s ! cur)\<lparr>state := 1\<rparr>]\<rparr>)))
         else
           Jump (s\<lparr>threads := (threads s)[cur := (threads s ! cur)\<lparr>state := 2\<rparr>],
                   current_thread := want_tid\<rparr>))"

text \<open>
  \<^verbatim>\<open>getcontext(&(threads[current_thread].context))\<close> in \<^verbatim>\<open>thread_yield\<close>, followed by the
  code after it. \<^verbatim>\<open>getcontext\<close> itself does not fail.
\<close>

definition A2_yield_switch :: "int \<Rightarrow> bool \<Rightarrow> a2_state \<Rightarrow> a2_state result" where
  "A2_yield_switch want_tid enabled s =
     (let cur = nat (current_thread s)
      in A2_yield_resume want_tid enabled
           (s\<lparr>threads := (threads s)[cur :=
                (threads s ! cur)\<lparr>context := A2_InYield want_tid enabled\<rparr>]\<rparr>))"

text \<open>
  \<^verbatim>\<open>thread_yield(want_tid)\<close>; \<open>new_node\<close> is what the \<^verbatim>\<open>malloc369\<close> of
  \<^verbatim>\<open>ready_enqueue\<close> returns (the result of \<^verbatim>\<open>ready_enqueue\<close> is ignored, as in the
  source). The node taken from the list is freed at once and is not part of the state.
\<close>

definition A2_thread_yield :: "nat option \<Rightarrow> int \<Rightarrow> a2_state \<Rightarrow> a2_state result" where
  "A2_thread_yield new_node want_tid s0 =
     (let enabled = fst (interrupts_off s0);
          s = snd (interrupts_off s0)
      in if want_tid = THREAD_ANY
            \<or> (ready_head s \<noteq> [] \<and> want_tid = snd (hd (ready_head s))) then
           (case ready_head s of
              [] \<Rightarrow> Return THREAD_NONE s
            | n # ns \<Rightarrow>
                A2_yield_switch (snd n) enabled
                  (snd (ready_enqueue new_node (A2_thread_id s) (s\<lparr>ready_head := ns\<rparr>))))
         else if want_tid = THREAD_SELF \<or> want_tid = A2_thread_id s then
           A2_yield_switch (A2_thread_id s) enabled s
         else if to_unsigned want_tid \<ge> to_unsigned (int (length (threads s)))
                 \<or> ready_head s = [] \<or> state (threads s ! nat want_tid) = 0 then
           Return THREAD_INVALID s
         else
           (case A2_unlink want_tid (ready_head s) of
              None \<Rightarrow> Return THREAD_INVALID s
            | Some (d, l) \<Rightarrow>
                A2_yield_switch want_tid enabled
                  (snd (ready_enqueue new_node (A2_thread_id s) (s\<lparr>ready_head := l\<rparr>)))))"

text \<open>
  \<^verbatim>\<open>thread_stub(thread_main, arg)\<close> up to the call of the entry function, and what
  follows the return of the entry function.
\<close>

definition A2_thread_stub :: "nat \<Rightarrow> nat \<Rightarrow> a2_state \<Rightarrow> a2_state result" where
  "A2_thread_stub thread_main arg s =
     Enter thread_main arg (snd (interrupts_on (free_stuff s)))"

definition A2_thread_stub_return :: "a2_state \<Rightarrow> a2_state result" where
  "A2_thread_stub_return s = A2_thread_exit 0 (snd (interrupts_off s))"

text \<open>
  The code of \<^verbatim>\<open>thread_sleep\<close> after \<^verbatim>\<open>getcontext\<close>, from \<^verbatim>\<open>free_stuff()\<close> on; \<open>ret\<close>,
  \<open>enabled\<close> and \<open>new_head\<close> are the local variables of the call. \<^verbatim>\<open>thread_sleep\<close>
  uses \<^verbatim>\<open>current_thread\<close> as a \<^verbatim>\<open>struct thread *\<close> (A2 declares the name twice, as the
  \<^verbatim>\<open>Tid\<close> that indexes \<^verbatim>\<open>threads[]\<close> and as a pointer), and it calls
  \<^verbatim>\<open>thread_exit\<close> and \<^verbatim>\<open>setcontext\<close>, which work on the table. The control blocks of
  A2 are the slots of \<^verbatim>\<open>threads[]\<close>: a pointer to a control block is the index of its
  slot, \<^verbatim>\<open>current_thread->f\<close> is \<^verbatim>\<open>threads[current_thread].f\<close>, and
  \<^verbatim>\<open>current_thread = new_head\<close> makes the slot \<open>new_head\<close> the current one.
\<close>

definition A2_sleep_resume :: "int \<Rightarrow> bool \<Rightarrow> nat \<Rightarrow> a2_state \<Rightarrow> a2_state result" where
  "A2_sleep_resume ret enabled new_head s0 =
     (let s = free_stuff s0;
          cur = nat (current_thread s)
      in if state (threads s ! cur) = 3 then A2_thread_exit 0 s
         else if state (threads s ! cur) = 2 then
           Return ret
             (snd (interrupts_set enabled
                (s\<lparr>threads := (threads s)[cur := (threads s ! cur)\<lparr>state := 1\<rparr>]\<rparr>)))
         else
           Jump (s\<lparr>threads := (threads s)[cur := (threads s ! cur)\<lparr>state := 2\<rparr>],
                   current_thread := int new_head\<rparr>))"

text \<open>
  \<^verbatim>\<open>setcontext(&(threads[current_thread].context))\<close>: control continues at the point the
  context of the current thread was saved at, up to the next return or \<^verbatim>\<open>setcontext\<close>.
\<close>

definition A2_setcontext :: "a2_state \<Rightarrow> a2_state result" where
  "A2_setcontext s =
     (case context (threads s ! nat (current_thread s)) of
        AtStub fn parg \<Rightarrow> A2_thread_stub fn parg s
      | A2_InYield want_tid enabled \<Rightarrow> A2_yield_resume want_tid enabled s
      | A2_InSleep ret enabled new_head \<Rightarrow> A2_sleep_resume ret enabled new_head s
      | _ \<Rightarrow> Undefined s)"

text \<open>
  A call followed by every transfer of control it leads to, until some thread runs
  user code again or the process ends. \<open>None\<close>: the transfers never end.
\<close>

partial_function (option) A2_run :: "a2_state result \<Rightarrow> a2_state result option" where
  "A2_run r = (case r of Jump s \<Rightarrow> A2_run (A2_setcontext s) | _ \<Rightarrow> Some r)"

text \<open>\<^verbatim>\<open>thread_kill(tid)\<close>.\<close>

definition A2_thread_kill :: "int \<Rightarrow> a2_state \<Rightarrow> int \<times> a2_state" where
  "A2_thread_kill tid s0 =
     (let enabled = fst (interrupts_off s0);
          s = snd (interrupts_off s0)
      in if tid = A2_thread_id s
            \<or> to_unsigned tid \<ge> to_unsigned (int (length (threads s)))
            \<or> state (threads s ! nat tid) = 0
         then (THREAD_INVALID, snd (interrupts_set enabled s))
         else
           let s = s\<lparr>threads := (threads s)[nat tid := (threads s ! nat tid)\<lparr>state := 0\<rparr>]\<rparr>
           in (tid, snd (interrupts_set enabled s)))"

section \<open>A1/thread.c: the run list of control blocks\<close>

text \<open>
  The control blocks live in a store indexed by their addresses. \<^verbatim>\<open>current_thread\<close>
  points to the running thread, which heads the run list: the blocks reached from it
  along \<^verbatim>\<open>next\<close> are the threads ready to run, in order. A \<^verbatim>\<open>struct wait_queue\<close> (A2)
  is the address of its \<^verbatim>\<open>head\<close> field.
\<close>

record p_state = rt +
  heap :: "nat \<Rightarrow> thread"
  wq_head :: "nat \<Rightarrow> nat option"
  current_thread_p :: nat

text \<open>The assignments \<^verbatim>\<open>p->next = q\<close>, \<^verbatim>\<open>p->state = v\<close> and the saving of a context.\<close>

definition set_next :: "nat \<Rightarrow> nat option \<Rightarrow> p_state \<Rightarrow> p_state" where
  "set_next p q s = s\<lparr>heap := (heap s)(p := (heap s p)\<lparr>next := q\<rparr>)\<rparr>"

definition set_state :: "nat \<Rightarrow> int \<Rightarrow> p_state \<Rightarrow> p_state" where
  "set_state p v s = s\<lparr>heap := (heap s)(p := (heap s p)\<lparr>state := v\<rparr>)\<rparr>"

definition set_context :: "nat \<Rightarrow> ctx \<Rightarrow> p_state \<Rightarrow> p_state" where
  "set_context p c s = s\<lparr>heap := (heap s)(p := (heap s p)\<lparr>context := c\<rparr>)\<rparr>"

text \<open>
  The loop of \<^verbatim>\<open>add_to_end\<close>: \<^verbatim>\<open>while (curr->next != NULL) curr = curr->next;\<close>. On a
  cyclic list it does not end.
\<close>

partial_function (option) add_to_end_loop :: "(nat \<Rightarrow> thread) \<Rightarrow> nat \<Rightarrow> nat option" where
  "add_to_end_loop h p =
     (case next (h p) of None \<Rightarrow> Some p | Some q \<Rightarrow> add_to_end_loop h q)"

text \<open>\<^verbatim>\<open>add_to_end(t)\<close> of A1: the walk starts at \<^verbatim>\<open>current_thread\<close>.\<close>

definition A1_add_to_end :: "nat \<Rightarrow> p_state \<Rightarrow> p_state option" where
  "A1_add_to_end t s =
     (case add_to_end_loop (heap s) (current_thread_p s) of
        None \<Rightarrow> None
      | Some p \<Rightarrow> Some (set_next p (Some t) s))"

text \<open>\<^verbatim>\<open>thread_init\<close>.\<close>

definition A1_thread_init :: "p_state \<Rightarrow> p_state" where
  "A1_thread_init s =
     s\<lparr>heap := (heap s)(current_thread_p s :=
          (heap s (current_thread_p s))\<lparr>TID := 0, next := None, state := 1\<rparr>)\<rparr>"

definition A1_thread_id :: "p_state \<Rightarrow> int" where
  "A1_thread_id s = TID (heap s (current_thread_p s))"

text \<open>
  \<^verbatim>\<open>thread_stub(thread_main, arg)\<close> up to the call of the entry function; when the
  entry function returns, \<^verbatim>\<open>thread_exit(0)\<close> follows.
\<close>

definition A1_thread_stub :: "nat \<Rightarrow> nat \<Rightarrow> p_state \<Rightarrow> p_state result" where
  "A1_thread_stub thread_main arg s = Enter thread_main arg (free_stuff s)"

text \<open>
  The inner loop of \<^verbatim>\<open>thread_create\<close>: is \<open>new_tid\<close> absent from the list that starts
  at \<open>p\<close>?
  \<^verbatim>\<open>while (curr != NULL && tid_unused) { if (curr->TID == new_tid) tid_unused = 0; curr = curr->next; }\<close>
\<close>

partial_function (option) A1_tid_unused :: "(nat \<Rightarrow> thread) \<Rightarrow> nat option \<Rightarrow> int \<Rightarrow> bool option" where
  "A1_tid_unused h p new_tid =
     (case p of
        None \<Rightarrow> Some True
      | Some a \<Rightarrow> if TID (h a) = new_tid then Some False
                  else A1_tid_unused h (next (h a)) new_tid)"

text \<open>
  The outer loop of \<^verbatim>\<open>thread_create\<close>, entered with the current value of \<open>new_tid\<close>:
  \<^verbatim>\<open>while (!tid_unused) { new_tid++; if (new_tid == THREAD_MAX_THREADS) return THREAD_NOMORE; ... }\<close>.
  \<open>N\<close> is \<^verbatim>\<open>THREAD_MAX_THREADS\<close>.
\<close>

partial_function (option) A1_find_tid :: "nat \<Rightarrow> (nat \<Rightarrow> thread) \<Rightarrow> nat \<Rightarrow> int \<Rightarrow> int option" where
  "A1_find_tid N h cur new_tid =
     (if new_tid + 1 = int N then Some THREAD_NOMORE
      else case A1_tid_unused h (Some cur) (new_tid + 1) of
             None \<Rightarrow> None
           | Some unused \<Rightarrow> if unused then Some (new_tid + 1)
                           else A1_find_tid N h cur (new_tid + 1))"

text \<open>
  \<^verbatim>\<open>thread_create(fn, parg)\<close>. \<open>new_thread\<close> is what \<^verbatim>\<open>malloc(sizeof(struct thread))\<close>
  returns and \<open>stack\<close> what \<^verbatim>\<open>malloc(THREAD_MIN_STACK)\<close> returns. When the stack
  allocation fails the new block is freed again: the writes to it are not part of the
  state that is returned.
\<close>

definition A1_thread_create ::
  "nat \<Rightarrow> nat \<Rightarrow> nat \<Rightarrow> nat option \<Rightarrow> nat option \<Rightarrow> p_state \<Rightarrow> (int \<times> p_state) option" where
  "A1_thread_create N fn parg new_thread stack s =
     (case A1_find_tid N (heap s) (current_thread_p s) 0 of
        None \<Rightarrow> None
      | Some new_tid \<Rightarrow>
          if new_tid = THREAD_NOMORE then Some (THREAD_NOMORE, s)
          else
            (case new_thread of
               None \<Rightarrow> Some (THREAD_NOMEMORY, s)
             | Some a \<Rightarrow>
                 if stack = None then Some (THREAD_NOMEMORY, s)
                 else
                   (case A1_add_to_end a
                           (s\<lparr>heap := (heap s)(a := (heap s a)
                                \<lparr>TID := new_tid, next := None, state := 1,
                                 thread_stack := stack, context := AtStub fn parg\<rparr>)\<rparr>) of
                      None \<Rightarrow> None
                    | Some s' \<Rightarrow> Some (new_tid, s'))))"

text \<open>\<^verbatim>\<open>thread_exit(exit_code)\<close>.\<close>

definition A1_thread_exit :: "int \<Rightarrow> p_state \<Rightarrow> p_state result" where
  "A1_thread_exit exit_code s =
     (let c = current_thread_p s
      in if TID (heap s c) = 0 then
           (case next (heap s c) of
              None \<Rightarrow> Exit exit_code (free_stuff s)
            | Some n \<Rightarrow> Jump (s\<lparr>current_thread_p := n\<rparr>))
         else
           (let s1 = s\<lparr>to_free_1 := thread_stack (heap s c), to_free_2 := Some c\<rparr>
            in case next (heap s c) of
                 None \<Rightarrow> Exit exit_code (free_stuff s1)
               | Some n \<Rightarrow> Jump (s1\<lparr>current_thread_p := n\<rparr>)))"

text \<open>
  The code of \<^verbatim>\<open>thread_yield\<close> after \<^verbatim>\<open>getcontext\<close>, from \<^verbatim>\<open>free_stuff()\<close> on; it runs
  when \<^verbatim>\<open>getcontext\<close> returns for the first time and again when the context is resumed.
  \<open>want_tid\<close> and \<open>wanted\<close> are the local variables of the call.
\<close>

definition A1_yield_resume :: "int \<Rightarrow> nat \<Rightarrow> p_state \<Rightarrow> p_state result" where
  "A1_yield_resume want_tid wanted s0 =
     (let s = free_stuff s0;
          c = current_thread_p s
      in if state (heap s c) = 3 then A1_thread_exit 0 s
         else if state (heap s c) = 2 then Return want_tid (set_state c 1 s)
         else Jump ((set_state c 2 s)\<lparr>current_thread_p := wanted\<rparr>))"

definition A1_yield_switch :: "int \<Rightarrow> nat \<Rightarrow> p_state \<Rightarrow> p_state result" where
  "A1_yield_switch want_tid wanted s =
     A1_yield_resume want_tid wanted
       (set_context (current_thread_p s) (A1_InYield want_tid wanted) s)"

text \<open>
  The search of \<^verbatim>\<open>thread_yield\<close> for an explicit identifier:
  \<^verbatim>\<open>while (curr->next != NULL && curr->next->TID != want_tid) curr = curr->next;\<close>.
  The result is the final \<^verbatim>\<open>curr\<close>.
\<close>

partial_function (option) A1_find_prev :: "(nat \<Rightarrow> thread) \<Rightarrow> nat \<Rightarrow> int \<Rightarrow> nat option" where
  "A1_find_prev h p want_tid =
     (case next (h p) of
        None \<Rightarrow> Some p
      | Some q \<Rightarrow> if TID (h q) \<noteq> want_tid then A1_find_prev h q want_tid else Some p)"

text \<open>
  \<^verbatim>\<open>thread_yield(want_tid)\<close>, with \<open>N\<close> for \<^verbatim>\<open>THREAD_MAX_THREADS\<close>. \<open>None\<close>: a walk along
  the run list does not end.
\<close>

definition A1_thread_yield :: "nat \<Rightarrow> int \<Rightarrow> p_state \<Rightarrow> p_state result option" where
  "A1_thread_yield N want_tid s =
     (let c = current_thread_p s
      in if want_tid = THREAD_ANY
            \<or> (next (heap s c) \<noteq> None \<and> want_tid = TID (heap s (the (next (heap s c))))) then
           (case next (heap s c) of
              None \<Rightarrow> Some (Return THREAD_NONE s)
            | Some n \<Rightarrow>
                (case A1_add_to_end c s of
                   None \<Rightarrow> None
                 | Some s1 \<Rightarrow>
                     Some (A1_yield_switch (TID (heap s n)) n (set_next c None s1))))
         else if want_tid = THREAD_SELF \<or> want_tid = A1_thread_id s then
           Some (A1_yield_switch (A1_thread_id s) c s)
         else if to_unsigned want_tid \<ge> to_unsigned (int N) \<or> next (heap s c) = None then
           Some (Return THREAD_INVALID s)
         else
           (case A1_find_prev (heap s) (the (next (heap s c))) want_tid of
              None \<Rightarrow> None
            | Some prev \<Rightarrow>
                (case next (heap s prev) of
                   None \<Rightarrow> Some (Return THREAD_INVALID s)
                 | Some wanted \<Rightarrow>
                     let s1 = set_next prev (next (heap s wanted)) s;
                         s2 = set_next wanted (next (heap s1 c)) s1
                     in (case A1_add_to_end c s2 of
                           None \<Rightarrow> None
                         | Some s3 \<Rightarrow>
                             Some (A1_yield_switch want_tid wanted (set_next c None s3))))))"

text \<open>
  \<^verbatim>\<open>setcontext(&(current_thread->context))\<close>: control continues at the point the context
  of the current thread was saved at, up to the next return or \<^verbatim>\<open>setcontext\<close>.
\<close>

definition A1_setcontext :: "p_state \<Rightarrow> p_state result" where
  "A1_setcontext s =
     (case context (heap s (current_thread_p s)) of
        AtStub fn parg \<Rightarrow> A1_thread_stub fn parg s
      | A1_InYield want_tid wanted \<Rightarrow> A1_yield_resume want_tid wanted s
      | _ \<Rightarrow> Undefined s)"

text \<open>
  A call followed by every transfer of control it leads to, until some thread runs
  user code again or the process ends. \<open>None\<close>: the transfers never end.
\<close>

partial_function (option) A1_run :: "p_state result \<Rightarrow> p_state result option" where
  "A1_run r = (case r of Jump s \<Rightarrow> A1_run (A1_setcontext s) | _ \<Rightarrow> Some r)"

text \<open>
  The loop of \<^verbatim>\<open>thread_kill(tid)\<close>, entered with \<^verbatim>\<open>curr\<close>; together with the result it
  gives the store.
\<close>

partial_function (option) A1_kill_loop :: "p_state \<Rightarrow> nat option \<Rightarrow> int \<Rightarrow> (int \<times> p_state) option" where
  "A1_kill_loop s p tid =
     (case p of
        None \<Rightarrow> Some (THREAD_INVALID, s)
      | Some a \<Rightarrow> if TID (heap s a) = tid then Some (tid, set_state a 3 s)
                  else A1_kill_loop s (next (heap s a)) tid)"

definition A1_thread_kill :: "int \<Rightarrow> p_state \<Rightarrow> (int \<times> p_state) option" where
  "A1_thread_kill tid s = A1_kill_loop s (next (heap s (current_thread_p s))) tid"

section \<open>A2/thread.c: wait queues\<close>

text \<open>
  \<^verbatim>\<open>wait_queue_create\<close>, \<^verbatim>\<open>wait_queue_destroy\<close> and \<^verbatim>\<open>thread_wakeup\<close> reach the
  control blocks through pointers only and call no function of the table: they are
  embedded over the store of control blocks indexed by address, a queue being the
  address of its \<^verbatim>\<open>head\<close> field. \<^verbatim>\<open>thread_sleep\<close> calls \<^verbatim>\<open>thread_exit\<close> and
  \<^verbatim>\<open>setcontext\<close>, which work on \<^verbatim>\<open>threads[]\<close>: it is embedded over the table.
\<close>

text \<open>
  \<^verbatim>\<open>wait_queue_create\<close>; \<open>wq\<close> is what \<^verbatim>\<open>malloc369\<close> returns, and is the pointer the
  function returns after \<^verbatim>\<open>assert(wq)\<close>. \<^verbatim>\<open>wait_queue_destroy\<close> asserts that the queue
  is empty and frees it.
\<close>

definition wait_queue_create :: "nat option \<Rightarrow> p_state \<Rightarrow> p_state result" where
  "wait_queue_create wq s =
     (case wq of
        None \<Rightarrow> Abort
      | Some q \<Rightarrow> Done (s\<lparr>wq_head := (wq_head s)(q := None)\<rparr>))"

definition wait_queue_destroy :: "nat \<Rightarrow> p_state \<Rightarrow> p_state result" where
  "wait_queue_destroy wq s = (if wq_head s wq = None then Done s else Abort)"

text \<open>
  Modelled from the spec: \<^verbatim>\<open>thread_sleep\<close> and \<^verbatim>\<open>thread_wakeup\<close> call a two-argument
  \<^verbatim>\<open>add_to_end(head, t)\<close> that A2/thread.c does not define. It is A1's \<^verbatim>\<open>add_to_end\<close>
  with the start of the walk passed as \<open>head\<close>: \<open>t\<close> is linked behind the last block of
  the list, the tail of the FIFO queue the spec describes.
\<close>

definition A2_add_to_end :: "nat \<Rightarrow> nat \<Rightarrow> p_state \<Rightarrow> p_state option" where
  "A2_add_to_end head t s =
     (case add_to_end_loop (heap s) head of
        None \<Rightarrow> None
      | Some p \<Rightarrow> Some (set_next p (Some t) s))"

text \<open>
  \<^verbatim>\<open>struct wait_queue\<close>, as \<^verbatim>\<open>thread_sleep\<close> uses it: its \<^verbatim>\<open>head\<close> points to a
  control block of the table, or is \<^verbatim>\<open>NULL\<close>.
\<close>

record wait_queue =
  head :: "nat option"

text \<open>
  Modelled from the spec: the two-argument \<^verbatim>\<open>add_to_end(head, t)\<close> that \<^verbatim>\<open>thread_sleep\<close>
  calls, on control blocks that are slots of the table: the walk
  \<^verbatim>\<open>while (curr->next != NULL) curr = curr->next;\<close> starts at the slot \<open>first\<close>, and
  \<open>t\<close> is linked behind the slot it ends at.
\<close>

definition A2_table_add_to_end :: "nat \<Rightarrow> nat \<Rightarrow> a2_state \<Rightarrow> a2_state option" where
  "A2_table_add_to_end first t s =
     (case add_to_end_loop (\<lambda>i. threads s ! i) first of
        None \<Rightarrow> None
      | Some p \<Rightarrow> Some (s\<lparr>threads := (threads s)[p := (threads s ! p)\<lparr>next := Some t\<rparr>]\<rparr>))"

text \<open>
  \<^verbatim>\<open>thread_sleep(queue)\<close>; \<open>queue\<close> is \<open>None\<close> for a \<^verbatim>\<open>NULL\<close> pointer and otherwise
  the queue pointed to, and the result holds the queue as the call leaves it. The
  thread to run next is taken from \<^verbatim>\<open>current_thread->next\<close>; the list \<^verbatim>\<open>ready_head\<close>
  is not read. The part after \<^verbatim>\<open>getcontext\<close> is \<open>A2_sleep_resume\<close>.
  \<open>None\<close>: the walk to the end of the queue does not end.
\<close>

definition A2_thread_sleep ::
  "wait_queue option \<Rightarrow> a2_state \<Rightarrow> (wait_queue option \<times> a2_state result) option" where
  "A2_thread_sleep queue s0 =
     (case queue of
        None \<Rightarrow> Some (None, Return THREAD_INVALID s0)
      | Some wq \<Rightarrow>
          let enabled = fst (interrupts_off s0);
              s = snd (interrupts_off s0);
              cur = nat (current_thread s)
          in (case next (threads s ! cur) of
                None \<Rightarrow> Some (Some wq, Return THREAD_NONE (snd (interrupts_set enabled s)))
              | Some new_head \<Rightarrow>
                  let s1 = s\<lparr>threads := (threads s)[cur := (threads s ! cur)\<lparr>next := None\<rparr>]\<rparr>
                  in (case (case head wq of
                              None \<Rightarrow> Some (wq\<lparr>head := Some cur\<rparr>, s1)
                            | Some h \<Rightarrow> map_option (Pair wq) (A2_table_add_to_end h cur s1)) of
                        None \<Rightarrow> None
                      | Some (wq', s2) \<Rightarrow>
                          let ret = TID (threads s2 ! new_head)
                          in Some (Some wq',
                                   A2_sleep_resume ret enabled new_head
                                     (s2\<lparr>threads := (threads s2)[cur := (threads s2 ! cur)
                                            \<lparr>context := A2_InSleep ret enabled new_head\<rparr>]\<rparr>)))))"

text \<open>
  No slot of the table has a \<^verbatim>\<open>next\<close> pointer: the property of the states that
  \<^verbatim>\<open>thread_init\<close>, \<^verbatim>\<open>thread_create\<close>, \<^verbatim>\<open>thread_yield\<close>, \<^verbatim>\<open>thread_exit\<close> and
  \<^verbatim>\<open>thread_kill\<close> build.
\<close>

definition next_unset :: "a2_state \<Rightarrow> bool" where
  "next_unset s = list_all (\<lambda>t. next t = None) (threads s)"



section \<open>Abstraction of linked lists\<close>

text \<open>
  \<open>blocks h p as\<close>: in the store \<open>h\<close>, the list that starts at the pointer \<open>p\<close> and
  follows \<^verbatim>\<open>next\<close> up to \<^verbatim>\<open>NULL\<close> consists of the control blocks at the addresses
  \<open>as\<close>, in this order. The run list of a state is the list that starts at
  \<^verbatim>\<open>current_thread\<close>; the threads ready to run are the ones behind its head.
\<close>

primrec blocks :: "(nat \<Rightarrow> thread) \<Rightarrow> nat option \<Rightarrow> nat list \<Rightarrow> bool" where
  "blocks h p [] = (p = None)"
| "blocks h p (a # as) = (p = Some a \<and> blocks h (next (h a)) as)"

section \<open>Example states\<close>

definition mk_thread :: "int \<Rightarrow> int \<Rightarrow> ctx \<Rightarrow> thread" where
  "mk_thread i st c =
     \<lparr>TID = i, thread_stack = None, next = None, wait_q = None, state = st, context = c\<rparr>"

text \<open>A table of two control blocks, both in use; interrupts are enabled.\<close>

definition a2_full :: a2_state where
  "a2_full = \<lparr>interrupts_enabled = True, to_free_1 = None, to_free_2 = None,
               threads = [mk_thread 0 1 Uninit, mk_thread 1 1 (AtStub 7 8)],
               current_thread = 0, ready_head = [(100, 1)]\<rparr>"

text \<open>A table of two control blocks, the second unused; interrupts are enabled.\<close>

definition a2_one :: a2_state where
  "a2_one = \<lparr>interrupts_enabled = True, to_free_1 = None, to_free_2 = None,
              threads = [mk_thread 0 1 Uninit, mk_thread 1 0 Uninit],
              current_thread = 0, ready_head = []\<rparr>"

text \<open>
  A1 after \<^verbatim>\<open>thread_init\<close>: the initial thread at address 0 is alone in the run list.
  Then a thread is created at address 1 (it gets identifier 1) and killed before it
  has run.
\<close>

definition a1_init :: p_state where
  "a1_init = \<lparr>interrupts_enabled = True, to_free_1 = None, to_free_2 = None,
               heap = (\<lambda>_. mk_thread 0 0 Uninit)(0 := mk_thread 0 1 Uninit),
               wq_head = (\<lambda>_. None), current_thread_p = 0\<rparr>"

definition a1_created :: p_state where
  "a1_created = snd (the (A1_thread_create 4 7 8 (Some 1) (Some 1000) a1_init))"

definition a1_killed :: p_state where
  "a1_killed = snd (the (A1_thread_kill 1 a1_created))"

text \<open>
  The initial thread runs; the threads 1 and 2 sleep, in this order, in the wait queue
  at address 50.
\<close>

definition a2_waiting :: p_state where
  "a2_waiting = \<lparr>interrupts_enabled = True, to_free_1 = None, to_free_2 = None,
     heap = (\<lambda>_. mk_thread 0 0 Uninit)
              (0 := mk_thread 0 1 Uninit,
               1 := (mk_thread 1 2 (A2_InSleep 2 True 2))\<lparr>next := Some 2\<rparr>,
               2 := mk_thread 2 2 (A2_InSleep 0 True 0)),
     wq_head = (\<lambda>_. None)(50 := Some 1), current_thread_p = 0\<rparr>"

text \<open>
  A1 after the initial thread has called \<^verbatim>\<open>thread_exit\<close> in \<open>a1_created\<close>: thread 1
  runs its entry function and is alone in the run list.
\<close>

definition a1_main_exited :: p_state where
  "a1_main_exited = free_stuff (a1_created\<lparr>current_thread_p := 1\<rparr>)"

text \<open>
  A2 with three threads in a table of four: thread 0 runs, the threads 1 and 2 are
  ready, in this order.
\<close>

definition a2_three :: a2_state where
  "a2_three = \<lparr>interrupts_enabled = True, to_free_1 = None, to_free_2 = None,
                threads = [mk_thread 0 1 Uninit, mk_thread 1 1 (AtStub 7 8),
                           mk_thread 2 1 (AtStub 7 9), mk_thread 3 0 Uninit],
                current_thread = 0, ready_head = [(100, 1), (101, 2)]\<rparr>"

text \<open>
  A2 as the library builds it: \<^verbatim>\<open>thread_init\<close> on a table of four slots, then two
  calls of \<^verbatim>\<open>thread_create\<close> whose allocations succeed (stacks at 1000 and 2000, ready
  nodes at 100 and 101). Thread 0 runs, the threads 1 and 2 are ready.
\<close>

definition a2_boot :: a2_state where
  "a2_boot = A2_thread_init 4
     \<lparr>interrupts_enabled = True, to_free_1 = None, to_free_2 = None,
      threads = [], current_thread = 0, ready_head = []\<rparr>"

definition a2_created :: a2_state where
  "a2_created = snd (A2_thread_create 7 9 (Some 2000) (Some 101)
                  (snd (A2_thread_create 7 8 (Some 1000) (Some 100) a2_boot)))"

text \<open>The same in A1: the run list is 0, 1, 2.\<close>

definition a1_three :: p_state where
  "a1_three = \<lparr>interrupts_enabled = True, to_free_1 = None, to_free_2 = None,
     heap = (\<lambda>_. mk_thread 0 0 Uninit)
              (0 := (mk_thread 0 1 Uninit)\<lparr>next := Some 1\<rparr>,
               1 := (mk_thread 1 1 (AtStub 7 8))\<lparr>next := Some 2\<rparr>,
               2 := mk_thread 2 1 (AtStub 7 9)),
     wq_head = (\<lambda>_. None), current_thread_p = 0\<rparr>"

section \<open>Facts about the embedding\<close>

lemmas thread_consts =
  THREAD_ANY_def THREAD_SELF_def THREAD_INVALID_def THREAD_NONE_def
  THREAD_NOMORE_def THREAD_NOMEMORY_def THREAD_FAILED_def

lemmas a1_evals =
  A1_thread_create_def A1_find_tid.simps A1_tid_unused.simps A1_add_to_end_def
  add_to_end_loop.simps set_next_def set_state_def set_context_def A1_thread_kill_def
  A1_kill_loop.simps A1_thread_yield_def A1_yield_switch_def A1_yield_resume_def
  A1_run.simps A1_setcontext_def A1_thread_stub_def free_stuff_def A1_thread_exit_def
  A1_thread_id_def mk_thread_def thread_consts Let_def


subsection \<open>Lists of control blocks\<close>

lemma blocks_None [simp]: "blocks h None as = (as = [])"
  by (cases as) auto

lemma blocks_Some: "blocks h (Some a) as = (\<exists>bs. as = a # bs \<and> blocks h (next (h a)) bs)"
  by (cases as) auto

lemma blocks_fun: "blocks h p as \<Longrightarrow> blocks h p bs \<Longrightarrow> as = bs"
  by (induction as arbitrary: p bs) (auto simp: blocks_Some)

lemma blocks_upd_outside: "p \<notin> set as \<Longrightarrow> blocks (h(p := v)) x as = blocks h x as"
  by (induction as arbitrary: x) auto

lemma blocks_upd_same_next: "next v = next (h p) \<Longrightarrow> blocks (h(p := v)) x as = blocks h x as"
  by (induction as arbitrary: x) auto

lemma blocks_split: "blocks h p (as @ b # bs) \<Longrightarrow> blocks h (Some b) (b # bs)"
  by (induction as arbitrary: p) auto

lemma blocks_not_in_tail: "blocks h p (a # as) \<Longrightarrow> a \<notin> set as"
proof
  assume b: "blocks h p (a # as)" and "a \<in> set as"
  then obtain xs ys where as: "as = xs @ a # ys" by (auto simp: in_set_conv_decomp)
  from b have t: "blocks h (next (h a)) (xs @ a # ys)" by (simp add: as)
  then have "blocks h (Some a) (a # ys)" by (rule blocks_split)
  then have "blocks h (next (h a)) ys" by simp
  with t have "xs @ a # ys = ys" by (rule blocks_fun)
  then have "length (xs @ a # ys) = length ys" by simp
  then show False by simp
qed

lemma blocks_distinct: "blocks h p as \<Longrightarrow> distinct as"
proof (induction as arbitrary: p)
  case Nil then show ?case by simp
next
  case (Cons a as)
  then show ?case using blocks_not_in_tail[of h p a as] by auto
qed

lemma add_to_end_loop_blocks: "blocks h (Some a) as \<Longrightarrow> add_to_end_loop h a = Some (last as)"
proof (induction as arbitrary: a)
  case Nil then show ?case by simp
next
  case (Cons b bs)
  then have ab: "a = b" and t: "blocks h (next (h a)) bs" by auto
  show ?case
  proof (cases bs)
    case Nil
    with t show ?thesis by (subst add_to_end_loop.simps) (simp add: ab)
  next
    case (Cons c cs)
    with t have n: "next (h a) = Some c" by simp
    with Cons.IH[of c] t Cons show ?thesis
      by (subst add_to_end_loop.simps) (simp add: ab)
  qed
qed

lemma blocks_snoc:
  "blocks h (Some a) as \<Longrightarrow> c \<notin> set as \<Longrightarrow> next (h c) = None \<Longrightarrow>
   blocks (h(last as := (h (last as))\<lparr>next := Some c\<rparr>)) (Some a) (as @ [c])"
proof (induction as arbitrary: a)
  case Nil then show ?case by simp
next
  case (Cons b bs)
  then have ab: "a = b" and t: "blocks h (next (h a)) bs" by auto
  have nb: "b \<notin> set bs" using Cons.prems(1) blocks_not_in_tail by blast
  have cb: "c \<noteq> b" "c \<notin> set bs" using Cons.prems(2) by auto
  show ?case
  proof (cases bs)
    case Nil
    with t Cons.prems show ?thesis by (auto simp: ab)
  next
    case bs: (Cons d ds)
    with t have n: "next (h a) = Some d" by simp
    define h' where "h' = h(last bs := (h (last bs))\<lparr>next := Some c\<rparr>)"
    have "blocks h (Some d) bs" using t n by simp
    then have ih: "blocks h' (Some d) (bs @ [c])"
      unfolding h'_def using cb(2) Cons.prems(3) by (rule Cons.IH)
    have "last bs \<noteq> b" using nb bs by (metis last_in_set list.distinct(1))
    then have "next (h' b) = Some d" using n by (simp add: h'_def ab)
    with ih have f: "blocks h' (Some a) ((b # bs) @ [c])" by (simp add: ab)
    have e: "last (b # bs) = last bs" using bs by simp
    show ?thesis using f unfolding h'_def e .
  qed
qed

subsection \<open>Casts, the interrupt gate, field updates\<close>

lemma to_unsigned_ge_iff:
  assumes "- (2 ^ 31) \<le> x" "x < 2 ^ 31" "0 \<le> n" "n < 2 ^ 31"
  shows "to_unsigned n \<le> to_unsigned x \<longleftrightarrow> x < 0 \<or> n \<le> x"
proof (cases "x < 0")
  case True
  then have "x mod 2 ^ 32 = x + 2 ^ 32"
    using assms(1) by (simp add: int_mod_pos_eq[where q = "-1"])
  moreover have "n mod 2 ^ 32 = n" using assms by simp
  ultimately show ?thesis using True assms by (simp add: to_unsigned_def)
next
  case False
  then have "x mod 2 ^ 32 = x" using assms by simp
  moreover have "n mod 2 ^ 32 = n" using assms by simp
  ultimately show ?thesis using False by (simp add: to_unsigned_def)
qed

lemma interrupts_restore [simp]:
  "snd (interrupts_set (fst (interrupts_off s)) (snd (interrupts_off s))) = s"
  by (simp add: interrupts_off_def interrupts_set_def)

lemma blocks_set_state [simp]: "blocks (heap (set_state a v s)) p as = blocks (heap s) p as"
  by (simp add: set_state_def blocks_upd_same_next)

lemma set_state_simps [simp]:
  "current_thread_p (set_state a v s) = current_thread_p s"
  "TID (heap (set_state a v s) b) = TID (heap s b)"
  "next (heap (set_state a v s) b) = next (heap s b)"
  "context (heap (set_state a v s) b) = context (heap s b)"
  "state (heap (set_state a v s) b) = (if b = a then v else state (heap s b))"
  "wq_head (set_state a v s) = wq_head s"
  "interrupts_enabled (set_state a v s) = interrupts_enabled s"
  by (simp_all add: set_state_def)

lemma set_state_idem:
  assumes "state (heap s a) = v"
  shows "set_state a v s = s"
proof -
  have "(heap s a)\<lparr>state := v\<rparr> = heap s a"
    using assms by (cases "heap s a") auto
  then show ?thesis by (simp add: set_state_def)
qed

lemma find_TID_set_state [simp]:
  "find (\<lambda>b. TID (heap (set_state a v s) b) = tid) rs = find (\<lambda>b. TID (heap s b) = tid) rs"
  by simp

lemma set_next_simps [simp]:
  "current_thread_p (set_next a q s) = current_thread_p s"
  "TID (heap (set_next a q s) b) = TID (heap s b)"
  "state (heap (set_next a q s) b) = state (heap s b)"
  "context (heap (set_next a q s) b) = context (heap s b)"
  "next (heap (set_next a q s) b) = (if b = a then q else next (heap s b))"
  "wq_head (set_next a q s) = wq_head s"
  "interrupts_enabled (set_next a q s) = interrupts_enabled s"
  by (simp_all add: set_next_def)

lemma set_context_simps [simp]:
  "current_thread_p (set_context a c s) = current_thread_p s"
  "TID (heap (set_context a c s) b) = TID (heap s b)"
  "state (heap (set_context a c s) b) = state (heap s b)"
  "next (heap (set_context a c s) b) = next (heap s b)"
  "context (heap (set_context a c s) b) = (if b = a then c else context (heap s b))"
  "wq_head (set_context a c s) = wq_head s"
  "interrupts_enabled (set_context a c s) = interrupts_enabled s"
  by (simp_all add: set_context_def)

lemma blocks_set_context [simp]: "blocks (heap (set_context a c s)) p as = blocks (heap s) p as"
  by (simp add: set_context_def blocks_upd_same_next)

lemma blocks_set_next_outside:
  "a \<notin> set as \<Longrightarrow> blocks (heap (set_next a q s)) p as = blocks (heap s) p as"
  by (simp add: set_next_def blocks_upd_outside)

lemma blocks_cong_next:
  "(\<And>a. a \<in> set as \<Longrightarrow> next (h' a) = next (h a)) \<Longrightarrow> blocks h' p as = blocks h p as"
  by (induction as arbitrary: p) auto

lemma free_stuff_simps [simp]:
  "interrupts_enabled (free_stuff s) = interrupts_enabled s"
  "to_free_1 (free_stuff s) = None" "to_free_2 (free_stuff s) = None"
  by (simp_all add: free_stuff_def)

lemma free_stuff_p [simp]:
  "heap (free_stuff s) = heap s" "current_thread_p (free_stuff s) = current_thread_p s"
  "wq_head (free_stuff s) = wq_head s"
  by (simp_all add: free_stuff_def)

lemma free_stuff_t [simp]:
  "threads (free_stuff s) = threads s" "current_thread (free_stuff s) = current_thread s"
  "ready_head (free_stuff s) = ready_head s"
  by (simp_all add: free_stuff_def)

lemma A2_add_to_end_blocks:
  assumes "blocks (heap s) (Some a) as"
  shows "A2_add_to_end a t s = Some (set_next (last as) (Some t) s)"
  using add_to_end_loop_blocks [OF assms] by (simp add: A2_add_to_end_def)

lemma blocks_set_next_snoc:
  assumes "blocks (heap s) (Some a) as" "c \<notin> set as" "next (heap s c) = None"
  shows "blocks (heap (set_next (last as) (Some c) s)) (Some a) (as @ [c])"
  using blocks_snoc [OF assms] by (simp add: set_next_def)

subsection \<open>\<^verbatim>\<open>thread_sleep\<close> and the \<^verbatim>\<open>next\<close> pointers of the table\<close>

lemma next_unset_nth:
  "next_unset s \<longleftrightarrow> (\<forall>i<length (threads s). next (threads s ! i) = None)"
  by (simp add: next_unset_def list_all_length)

lemma next_nth_update:
  "next x = next (xs ! i) \<Longrightarrow> next (xs[i := x] ! j) = next (xs ! j)"
  by (cases "i < length xs") (simp_all add: nth_list_update list_update_beyond)

lemma next_unset_field:
  assumes "next_unset s" and "next x = next (threads s ! i)"
  shows "next_unset (s\<lparr>threads := (threads s)[i := x]\<rparr>)"
  using assms by (simp add: next_unset_nth next_nth_update)

text \<open>\<^verbatim>\<open>thread_init\<close> leaves every \<^verbatim>\<open>next\<close> pointer of the table \<^verbatim>\<open>NULL\<close>.\<close>

lemma next_unset_init: "next_unset (A2_thread_init N s)"
  by (simp add: A2_thread_init_def Let_def next_unset_nth next_nth_update)

text \<open>
  \<^verbatim>\<open>thread_create\<close>, \<^verbatim>\<open>thread_kill\<close>, \<^verbatim>\<open>thread_exit\<close>, \<^verbatim>\<open>thread_yield\<close> and the code that
  \<^verbatim>\<open>setcontext\<close> resumes do not write \<^verbatim>\<open>next\<close>.
\<close>

lemma next_unset_create:
  "next_unset s \<Longrightarrow> next_unset (snd (A2_thread_create fn parg stack new_node s))"
  by (auto simp: A2_thread_create_def Let_def interrupts_off_def interrupts_set_def
      ready_enqueue_def next_unset_nth next_nth_update split: option.splits)

lemma next_unset_kill: "next_unset s \<Longrightarrow> next_unset (snd (A2_thread_kill tid s))"
  by (auto simp: A2_thread_kill_def Let_def interrupts_off_def interrupts_set_def
      next_unset_nth next_nth_update)

lemma next_unset_exit: "next_unset s \<Longrightarrow> pred_result next_unset (A2_thread_exit code s)"
  by (auto simp: A2_thread_exit_def Let_def interrupts_off_def free_stuff_def
      next_unset_nth next_nth_update split: list.splits)

lemma next_unset_yield_resume:
  "next_unset s \<Longrightarrow> pred_result next_unset (A2_yield_resume want_tid enabled s)"
  using next_unset_exit [of "free_stuff s" 0]
  by (auto simp: A2_yield_resume_def Let_def interrupts_set_def next_unset_nth next_nth_update)

lemma next_unset_yield_switch:
  "next_unset s \<Longrightarrow> pred_result next_unset (A2_yield_switch want_tid enabled s)"
  unfolding A2_yield_switch_def Let_def
  by (rule next_unset_yield_resume) (simp add: next_unset_field)

lemma next_unset_yield:
  "next_unset s \<Longrightarrow> pred_result next_unset (A2_thread_yield new_node want_tid s)"
  by (auto simp: A2_thread_yield_def Let_def interrupts_off_def ready_enqueue_def
      next_unset_nth intro!: next_unset_yield_switch split: list.splits option.splits)

lemma next_unset_sleep_resume:
  "next_unset s \<Longrightarrow> pred_result next_unset (A2_sleep_resume ret enabled new_head s)"
  using next_unset_exit [of "free_stuff s" 0]
  by (auto simp: A2_sleep_resume_def Let_def interrupts_set_def next_unset_nth next_nth_update)

lemma next_unset_setcontext:
  "next_unset s \<Longrightarrow> pred_result next_unset (A2_setcontext s)"
  by (auto simp: A2_setcontext_def A2_thread_stub_def interrupts_on_def interrupts_set_def
      free_stuff_def next_unset_nth
      intro: next_unset_yield_resume next_unset_sleep_resume split: ctx.splits)

text \<open>
  In such a state \<^verbatim>\<open>thread_sleep\<close> finds \<^verbatim>\<open>current_thread->next == NULL\<close> and returns
  \<^verbatim>\<open>THREAD_NONE\<close>, whatever the list \<^verbatim>\<open>ready_head\<close> holds; the state and the queue are
  as before the call.
\<close>

lemma A2_sleep_no_next:
  "next (threads s ! nat (current_thread s)) = None \<Longrightarrow>
   A2_thread_sleep (Some wq) s = Some (Some wq, Return THREAD_NONE s)"
  by (simp add: A2_thread_sleep_def Let_def interrupts_off_def interrupts_set_def)

lemma A2_sleep_next_unset:
  assumes "next_unset s" and "nat (current_thread s) < length (threads s)"
  shows "A2_thread_sleep (Some wq) (s\<lparr>ready_head := l\<rparr>)
           = Some (Some wq, Return THREAD_NONE (s\<lparr>ready_head := l\<rparr>))"
  using assms by (intro A2_sleep_no_next) (simp add: next_unset_nth)

lemma a2_created_eq:
  "a2_created =
     \<lparr>interrupts_enabled = True, to_free_1 = None, to_free_2 = None,
      threads = [mk_thread 0 1 Uninit,
                 (mk_thread 1 1 (AtStub 7 8))\<lparr>thread_stack := Some 1000\<rparr>,
                 (mk_thread 2 1 (AtStub 7 9))\<lparr>thread_stack := Some 2000\<rparr>,
                 mk_thread 3 0 Uninit],
      current_thread = 0, ready_head = [(100, 1), (101, 2)]\<rparr>"
  by (simp add: a2_created_def a2_boot_def A2_thread_init_def A2_thread_create_def
      A2_find_tid.simps ready_enqueue_def interrupts_off_def interrupts_set_def
      mk_thread_def thread_consts Let_def upt_rec)

text \<open>
  The rest of \<^verbatim>\<open>thread_sleep\<close>, on a state that the library does not build: the
  \<^verbatim>\<open>next\<close> pointer of slot 0 of \<open>a2_created\<close> is set to slot 1 by hand. The caller
  becomes the head of the empty queue, is marked waiting and saves its context;
  control goes to slot 1, and the ready list is not touched. When the caller is
  dispatched again, \<^verbatim>\<open>thread_sleep\<close> returns 1.
\<close>

lemma A2_sleep_follows_next:
  "(case A2_thread_sleep (Some \<lparr>head = None\<rparr>)
           (a2_created\<lparr>threads := (threads a2_created)[0 :=
              (threads a2_created ! 0)\<lparr>next := Some 1\<rparr>]\<rparr>) of
      Some (Some wq, Jump s') \<Rightarrow>
        head wq = Some 0 \<and> current_thread s' = 1
        \<and> map state (threads s') = [2, 1, 1, 0]
        \<and> map next (threads s') = [None, None, None, None]
        \<and> context (threads s' ! 0) = A2_InSleep 1 True 1
        \<and> ready_head s' = [(100, 1), (101, 2)]
        \<and> (\<exists>s''. A2_setcontext s' = Enter 7 8 s'')
        \<and> (\<exists>s''. A2_setcontext (s'\<lparr>current_thread := 0\<rparr>) = Return 1 s''
                  \<and> map state (threads s'') = [1, 1, 1, 0])
    | _ \<Rightarrow> False)"
  by (simp add: a2_created_eq A2_thread_sleep_def A2_sleep_resume_def A2_setcontext_def
      A2_thread_stub_def interrupts_on_def interrupts_off_def interrupts_set_def
      free_stuff_def mk_thread_def thread_consts Let_def)

subsection \<open>\<^verbatim>\<open>thread_kill\<close>\<close>

lemma A2_kill_invalid:
  "tid = current_thread s \<or> to_unsigned (int (length (threads s))) \<le> to_unsigned tid
     \<or> state (threads s ! nat tid) = 0 \<Longrightarrow>
   A2_thread_kill tid s = (THREAD_INVALID, s)"
  by (auto simp: A2_thread_kill_def A2_thread_id_def Let_def interrupts_off_def interrupts_set_def)

lemma A2_kill_valid:
  "\<not> (tid = current_thread s \<or> to_unsigned (int (length (threads s))) \<le> to_unsigned tid
     \<or> state (threads s ! nat tid) = 0) \<Longrightarrow>
   A2_thread_kill tid s = (tid, s\<lparr>threads := (threads s)[nat tid := (threads s ! nat tid)\<lparr>state := 0\<rparr>]\<rparr>)"
  by (auto simp: A2_thread_kill_def A2_thread_id_def Let_def interrupts_off_def interrupts_set_def)

lemma A1_kill_loop_blocks:
  "blocks (heap s) p rs \<Longrightarrow>
   A1_kill_loop s p tid =
     (case find (\<lambda>a. TID (heap s a) = tid) rs of
        None \<Rightarrow> Some (THREAD_INVALID, s)
      | Some a \<Rightarrow> Some (tid, set_state a 3 s))"
proof (induction rs arbitrary: p)
  case Nil
  then show ?case by (subst A1_kill_loop.simps) simp
next
  case (Cons a as)
  then show ?case by (subst A1_kill_loop.simps) simp
qed

lemma A1_kill:
  assumes "blocks (heap s) (next (heap s (current_thread_p s))) rs"
      and "\<forall>a\<in>set rs. 0 \<le> TID (heap s a)"
  shows "\<exists>r s'. A1_thread_kill tid s = Some (r, s')
          \<and> (r = THREAD_INVALID \<longleftrightarrow> tid \<notin> (\<lambda>a. TID (heap s a)) ` set rs)
          \<and> (r = THREAD_INVALID \<longrightarrow> s' = s)
          \<and> (r \<noteq> THREAD_INVALID \<longrightarrow>
                r = tid \<and> current_thread_p s' = current_thread_p s
                \<and> blocks (heap s') (next (heap s' (current_thread_p s'))) rs
                \<and> (\<exists>a\<in>set rs. TID (heap s a) = tid \<and> state (heap s' a) = 3)
                \<and> (\<exists>a. find (\<lambda>a. TID (heap s a) = tid) rs = Some a \<and> s' = set_state a 3 s)
                \<and> A1_thread_kill tid s' = Some (tid, s'))"
proof (cases "find (\<lambda>a. TID (heap s a) = tid) rs")
  case None
  then have "tid \<notin> (\<lambda>a. TID (heap s a)) ` set rs" by (auto simp: find_None_iff)
  with None assms(1) show ?thesis
    by (simp add: A1_thread_kill_def A1_kill_loop_blocks)
next
  case (Some a)
  then have a: "a \<in> set rs" "TID (heap s a) = tid"
    by (auto simp: find_Some_iff)
  then have ne: "tid \<noteq> THREAD_INVALID" using assms(2) by (auto simp: THREAD_INVALID_def)
  let ?s' = "set_state a 3 s"
  have 1: "A1_thread_kill tid s = Some (tid, ?s')"
    using Some assms(1) by (simp add: A1_thread_kill_def A1_kill_loop_blocks)
  have b': "blocks (heap ?s') (next (heap ?s' (current_thread_p ?s'))) rs"
    using assms(1) by simp
  have "A1_kill_loop ?s' (next (heap s (current_thread_p s))) tid =
          (case find (\<lambda>b. TID (heap ?s' b) = tid) rs of
             None \<Rightarrow> Some (THREAD_INVALID, ?s')
           | Some b \<Rightarrow> Some (tid, set_state b 3 ?s'))"
    by (rule A1_kill_loop_blocks) (simp add: assms(1))
  then have 2: "A1_thread_kill tid ?s' = Some (tid, ?s')"
    using Some by (simp add: A1_thread_kill_def set_state_idem)
  show ?thesis using 1 2 a ne b' Some by (intro exI[of _ tid] exI[of _ ?s']) auto
qed


lemma A2_kill:
  assumes "length (threads t) < 2 ^ 31" "- (2 ^ 31) \<le> tid" "tid < 2 ^ 31"
  shows "(fst (A2_thread_kill tid t) = THREAD_INVALID \<longleftrightarrow>
            (tid = current_thread t \<or> tid < 0 \<or> int (length (threads t)) \<le> tid
             \<or> state (threads t ! nat tid) = 0))
         \<and> (fst (A2_thread_kill tid t) = THREAD_INVALID \<longrightarrow> snd (A2_thread_kill tid t) = t)
         \<and> (fst (A2_thread_kill tid t) \<noteq> THREAD_INVALID \<longrightarrow>
               fst (A2_thread_kill tid t) = tid
               \<and> current_thread (snd (A2_thread_kill tid t)) = current_thread t
               \<and> ready_head (snd (A2_thread_kill tid t)) = ready_head t
               \<and> interrupts_enabled (snd (A2_thread_kill tid t)) = interrupts_enabled t
               \<and> (\<forall>i. i \<noteq> nat tid \<longrightarrow>
                      threads (snd (A2_thread_kill tid t)) ! i = threads t ! i)
               \<and> (\<exists>v. v \<noteq> state (threads t ! nat tid)
                      \<and> snd (A2_thread_kill tid t) =
                          t\<lparr>threads := (threads t)[nat tid := (threads t ! nat tid)\<lparr>state := v\<rparr>]\<rparr>))"
proof -
  let ?inv = "tid = current_thread t \<or> to_unsigned (int (length (threads t))) \<le> to_unsigned tid
     \<or> state (threads t ! nat tid) = 0"
  have u: "to_unsigned (int (length (threads t))) \<le> to_unsigned tid
           \<longleftrightarrow> tid < 0 \<or> int (length (threads t)) \<le> tid"
    using assms by (intro to_unsigned_ge_iff) auto
  show ?thesis
  proof (cases ?inv)
    case True
    then have "A2_thread_kill tid t = (THREAD_INVALID, t)" by (rule A2_kill_invalid)
    with True u show ?thesis by auto
  next
    case False
    let ?t' = "t\<lparr>threads := (threads t)[nat tid := (threads t ! nat tid)\<lparr>state := 0\<rparr>]\<rparr>"
    from False have k: "A2_thread_kill tid t = (tid, ?t')" by (rule A2_kill_valid)
    from False u have r: "0 \<le> tid" "nat tid < length (threads t)" by auto
    then have ne: "tid \<noteq> THREAD_INVALID" by (simp add: THREAD_INVALID_def)
    from False have "(0::int) \<noteq> state (threads t ! nat tid) \<and> ?t' = ?t'" by simp
    then have m: "\<exists>v. v \<noteq> state (threads t ! nat tid)
        \<and> ?t' = t\<lparr>threads := (threads t)[nat tid := (threads t ! nat tid)\<lparr>state := v\<rparr>]\<rparr>"
      by (rule exI)
    from k False u ne m show ?thesis by auto
  qed
qed

subsection \<open>\<^verbatim>\<open>thread_yield\<close> to the caller itself\<close>

lemma A2_yield_self_branch:
  assumes "want_tid = THREAD_SELF \<or> want_tid = current_thread s"
      and "want_tid \<noteq> THREAD_ANY"
      and "\<forall>n\<in>set (ready_head s). snd n \<noteq> want_tid"
  shows "A2_thread_yield new_node want_tid s
         = A2_yield_switch (current_thread s) (interrupts_enabled s)
             (s\<lparr>interrupts_enabled := False\<rparr>)"
proof -
  have "ready_head s = [] \<or> want_tid \<noteq> snd (hd (ready_head s))"
    using assms(3) by (cases "ready_head s") auto
  then show ?thesis
    using assms(1,2)
    by (auto simp: A2_thread_yield_def A2_thread_id_def Let_def interrupts_off_def)
qed

lemma A2_run_Return [simp]: "A2_run (Return v s) = Some (Return v s)"
  by (subst A2_run.simps) simp

lemma A2_run_Jump: "A2_run (Jump s) = A2_run (A2_setcontext s)"
  by (subst A2_run.simps) simp

lemma A1_run_Return [simp]: "A1_run (Return v s) = Some (Return v s)"
  by (subst A1_run.simps) simp

lemma A1_run_Jump: "A1_run (Jump s) = A1_run (A1_setcontext s)"
  by (subst A1_run.simps) simp

lemma A2_yield_self_run:
  assumes c: "0 \<le> current_thread s" "nat (current_thread s) < length (threads s)"
      and st: "state (threads s ! nat (current_thread s)) = 1"
  shows "\<exists>s'. A2_run (A2_yield_switch (current_thread s) (interrupts_enabled s)
                        (s\<lparr>interrupts_enabled := False\<rparr>))
               = Some (Return (current_thread s) s')
           \<and> current_thread s' = current_thread s
           \<and> ready_head s' = ready_head s
           \<and> interrupts_enabled s' = interrupts_enabled s
           \<and> length (threads s') = length (threads s)
           \<and> (\<forall>i. state (threads s' ! i) = state (threads s ! i)
                  \<and> TID (threads s' ! i) = TID (threads s ! i))"
proof -
  let ?c = "nat (current_thread s)"
  let ?en = "interrupts_enabled s"
  let ?x = "(threads s ! ?c)\<lparr>context := A2_InYield (current_thread s) ?en\<rparr>"
  let ?s1 = "(free_stuff (s\<lparr>interrupts_enabled := False\<rparr>))\<lparr>threads := (threads s)[?c := ?x\<lparr>state := 2\<rparr>],
                current_thread := current_thread s\<rparr>"
  let ?s2 = "(free_stuff ?s1)\<lparr>threads := (threads s)[?c := ?x\<lparr>state := 1\<rparr>], interrupts_enabled := ?en\<rparr>"
  have 1: "A2_yield_switch (current_thread s) ?en (s\<lparr>interrupts_enabled := False\<rparr>) = Jump ?s1"
    using c st by (simp add: A2_yield_switch_def A2_yield_resume_def Let_def free_stuff_def)
  have 2: "A2_setcontext ?s1 = Return (current_thread s) ?s2"
    using c st by (simp add: A2_setcontext_def A2_yield_resume_def Let_def free_stuff_def interrupts_set_def)
  have 3: "state (threads ?s2 ! i) = state (threads s ! i) \<and> TID (threads ?s2 ! i) = TID (threads s ! i)" for i
    using c st by (cases "i = ?c") (simp_all)
  show ?thesis
    using 1 2 3 c by (intro exI[of _ ?s2]) (simp add: A2_run_Jump)
qed

lemma A1_yield_self_branch:
  assumes "want_tid = THREAD_SELF \<or> want_tid = TID (heap s (current_thread_p s))"
      and "want_tid \<noteq> THREAD_ANY"
      and "\<forall>n. next (heap s (current_thread_p s)) = Some n \<longrightarrow> TID (heap s n) \<noteq> want_tid"
  shows "A1_thread_yield N want_tid s
         = Some (A1_yield_switch (TID (heap s (current_thread_p s))) (current_thread_p s) s)"
  using assms by (auto simp: A1_thread_yield_def A1_thread_id_def Let_def)

lemma A1_yield_self_run:
  assumes st: "state (heap s (current_thread_p s)) = 1"
  shows "\<exists>s'. A1_run (A1_yield_switch (TID (heap s (current_thread_p s))) (current_thread_p s) s)
               = Some (Return (TID (heap s (current_thread_p s))) s')
           \<and> current_thread_p s' = current_thread_p s
           \<and> (\<forall>a. next (heap s' a) = next (heap s a) \<and> state (heap s' a) = state (heap s a)
                  \<and> TID (heap s' a) = TID (heap s a))"
proof -
  let ?c = "current_thread_p s"
  let ?w = "TID (heap s ?c)"
  let ?s0 = "set_context ?c (A1_InYield ?w ?c) s"
  let ?s1 = "(set_state ?c 2 (free_stuff ?s0))\<lparr>current_thread_p := ?c\<rparr>"
  let ?s2 = "set_state ?c 1 (free_stuff ?s1)"
  have 1: "A1_yield_switch ?w ?c s = Jump ?s1"
    using st by (simp add: A1_yield_switch_def A1_yield_resume_def Let_def)
  have 2: "A1_setcontext ?s1 = Return ?w ?s2"
    by (simp add: A1_setcontext_def A1_yield_resume_def Let_def)
  show ?thesis
    using 1 2 st by (intro exI[of _ ?s2]) (simp add: A1_run_Jump)
qed

subsection \<open>\<^verbatim>\<open>thread_create\<close>\<close>

lemma A2_find_tid_full:
  "k < length ths \<Longrightarrow> \<forall>i. k \<le> i \<and> i < length ths \<longrightarrow> state (ths ! i) \<noteq> 0 \<Longrightarrow>
   A2_find_tid ths k = THREAD_NOMORE"
proof (induction ths k rule: A2_find_tid.induct)
  case (1 ths new_tid)
  show ?case
  proof (cases "Suc new_tid = length ths")
    case True
    with 1 show ?thesis by (subst A2_find_tid.simps) simp
  next
    case False
    with "1.prems" have "A2_find_tid ths (Suc new_tid) = THREAD_NOMORE"
      by (intro "1.IH") auto
    with False 1 show ?thesis by (subst A2_find_tid.simps) simp
  qed
qed

lemma A2_find_tid_least:
  "k \<le> j \<Longrightarrow> j < length ths \<Longrightarrow> state (ths ! j) = 0 \<Longrightarrow>
   \<forall>i. k \<le> i \<and> i < j \<longrightarrow> state (ths ! i) \<noteq> 0 \<Longrightarrow>
   A2_find_tid ths k = int j"
proof (induction ths k rule: A2_find_tid.induct)
  case (1 ths new_tid)
  show ?case
  proof (cases "new_tid = j")
    case True
    with 1 show ?thesis by (subst A2_find_tid.simps) simp
  next
    case False
    with "1.prems" have lt: "new_tid < j" by simp
    with "1.prems" have st: "state (ths ! new_tid) \<noteq> 0" "new_tid < length ths" "Suc new_tid \<noteq> length ths"
      by auto
    with "1.prems" lt have "A2_find_tid ths (Suc new_tid) = int j"
      by (intro "1.IH") auto
    with st show ?thesis by (subst A2_find_tid.simps) simp
  qed
qed

lemma A2_create_full:
  assumes "threads t \<noteq> []" "\<forall>i<length (threads t). state (threads t ! i) \<noteq> 0"
  shows "A2_thread_create fn parg stack new_node t = (THREAD_NOMORE, t\<lparr>interrupts_enabled := False\<rparr>)"
proof -
  have "A2_find_tid (threads t) 0 = THREAD_NOMORE"
    using assms by (intro A2_find_tid_full) auto
  then show ?thesis by (simp add: A2_thread_create_def Let_def interrupts_off_def)
qed

lemma A2_create_least:
  assumes "j < length (threads t)" "state (threads t ! j) = 0"
      and "\<forall>i<j. state (threads t ! i) \<noteq> 0"
  shows "A2_thread_create fn parg (Some st) (Some nd) t
         = (int j, t\<lparr>threads := (threads t)[j := (threads t ! j)
                         \<lparr>TID := int j, state := 1, thread_stack := Some st,
                          context := AtStub fn parg\<rparr>],
                     ready_head := ready_head t @ [(nd, int j)]\<rparr>)"
proof -
  have "A2_find_tid (threads t) 0 = int j"
    using assms by (intro A2_find_tid_least) auto
  then show ?thesis using assms(1)
    by (simp add: A2_thread_create_def Let_def interrupts_off_def interrupts_set_def
        ready_enqueue_def THREAD_NOMORE_def)
qed

lemma A1_tid_unused_blocks:
  "blocks h p as \<Longrightarrow> A1_tid_unused h p new_tid = Some (new_tid \<notin> (\<lambda>a. TID (h a)) ` set as)"
proof (induction as arbitrary: p)
  case Nil
  then show ?case by (subst A1_tid_unused.simps) simp
next
  case (Cons a as)
  then show ?case by (subst A1_tid_unused.simps) auto
qed

lemma A1_find_tid_full:
  assumes "blocks h (Some cur) as"
  shows "k < int N \<Longrightarrow> \<forall>i. k < i \<and> i < int N \<longrightarrow> i \<in> (\<lambda>a. TID (h a)) ` set as \<Longrightarrow>
         A1_find_tid N h cur k = Some THREAD_NOMORE"
proof (induction "nat (int N - k)" arbitrary: k)
  case 0
  then show ?case by simp
next
  case (Suc n)
  show ?case
  proof (cases "k + 1 = int N")
    case True
    then show ?thesis by (subst A1_find_tid.simps) simp
  next
    case False
    with Suc.prems have u: "k + 1 \<in> (\<lambda>a. TID (h a)) ` set as" by auto
    have "A1_find_tid N h cur (k + 1) = Some THREAD_NOMORE"
      using Suc.hyps(2) Suc.prems False by (intro Suc.hyps(1)) auto
    with False u show ?thesis
      by (subst A1_find_tid.simps) (simp add: A1_tid_unused_blocks [OF assms])
  qed
qed

lemma A1_find_tid_least:
  assumes "blocks h (Some cur) as"
  shows "k < j \<Longrightarrow> j < int N \<Longrightarrow> j \<notin> (\<lambda>a. TID (h a)) ` set as \<Longrightarrow>
         \<forall>i. k < i \<and> i < j \<longrightarrow> i \<in> (\<lambda>a. TID (h a)) ` set as \<Longrightarrow>
         A1_find_tid N h cur k = Some j"
proof (induction "nat (j - k)" arbitrary: k)
  case 0
  then show ?case by simp
next
  case (Suc n)
  have ne: "k + 1 \<noteq> int N" using Suc.prems by simp
  show ?case
  proof (cases "k + 1 = j")
    case True
    with Suc.prems ne show ?thesis
      by (subst A1_find_tid.simps) (simp add: A1_tid_unused_blocks [OF assms])
  next
    case False
    with Suc.prems have u: "k + 1 \<in> (\<lambda>a. TID (h a)) ` set as" by auto
    have "A1_find_tid N h cur (k + 1) = Some j"
      using Suc.hyps(2) Suc.prems False by (intro Suc.hyps(1)) auto
    with ne u show ?thesis
      by (subst A1_find_tid.simps) (simp add: A1_tid_unused_blocks [OF assms])
  qed
qed

lemma A1_add_to_end_blocks:
  assumes "blocks (heap s) (Some (current_thread_p s)) as"
  shows "A1_add_to_end t s = Some (set_next (last as) (Some t) s)"
  using add_to_end_loop_blocks [OF assms] by (simp add: A1_add_to_end_def)

lemma A1_create_full:
  assumes "blocks (heap s) (Some (current_thread_p s)) as" "0 < N"
      and "\<forall>i. 0 < i \<and> i < int N \<longrightarrow> i \<in> (\<lambda>a. TID (heap s a)) ` set as"
  shows "A1_thread_create N fn parg new_thread stack s = Some (THREAD_NOMORE, s)"
proof -
  have "A1_find_tid N (heap s) (current_thread_p s) 0 = Some THREAD_NOMORE"
    using assms by (intro A1_find_tid_full) auto
  then show ?thesis by (simp add: A1_thread_create_def)
qed

lemma A1_create_least:
  assumes as: "blocks (heap s) (Some (current_thread_p s)) as"
      and a: "a \<notin> set as"
      and j: "0 < j" "j < int N" "j \<notin> (\<lambda>a. TID (heap s a)) ` set as"
      and least: "\<forall>i. 0 < i \<and> i < j \<longrightarrow> i \<in> (\<lambda>a. TID (heap s a)) ` set as"
  shows "\<exists>s'. A1_thread_create N fn parg (Some a) (Some st) s = Some (j, s')
           \<and> blocks (heap s') (Some (current_thread_p s')) (as @ [a])
           \<and> current_thread_p s' = current_thread_p s
           \<and> TID (heap s' a) = j \<and> state (heap s' a) = 1
           \<and> context (heap s' a) = AtStub fn parg
           \<and> thread_stack (heap s' a) = Some st
           \<and> (\<forall>b. b \<noteq> a \<longrightarrow> TID (heap s' b) = TID (heap s b)
                  \<and> state (heap s' b) = state (heap s b)
                  \<and> context (heap s' b) = context (heap s b))"
proof -
  let ?x = "(heap s a)\<lparr>TID := j, next := None, state := 1, thread_stack := Some st,
                       context := AtStub fn parg\<rparr>"
  let ?s1 = "s\<lparr>heap := (heap s)(a := ?x)\<rparr>"
  let ?s' = "set_next (last as) (Some a) ?s1"
  have f: "A1_find_tid N (heap s) (current_thread_p s) 0 = Some j"
    using as j least by (intro A1_find_tid_least) auto
  have ne: "j \<noteq> THREAD_NOMORE" using j by (simp add: THREAD_NOMORE_def)
  have b1: "blocks (heap ?s1) (Some (current_thread_p s)) as"
    using as a by (simp add: blocks_upd_outside)
  have n1: "next (heap ?s1 a) = None" by simp
  from b1 have e: "A1_add_to_end a ?s1 = Some ?s'" by (intro A1_add_to_end_blocks) simp
  have c: "A1_thread_create N fn parg (Some a) (Some st) s = Some (j, ?s')"
    using f ne e by (simp add: A1_thread_create_def)
  have b': "blocks (heap ?s') (Some (current_thread_p s)) (as @ [a])"
    using b1 a n1 by (rule blocks_set_next_snoc)
  have "as \<noteq> []" using as by auto
  then have "last as \<in> set as" by simp
  with a have la: "last as \<noteq> a" by auto
  show ?thesis
    using c b' la by (intro exI [of _ ?s']) (simp add: set_next_def)
qed

subsection \<open>\<^verbatim>\<open>thread_yield\<close> of A2\<close>

lemma A2_unlink_absent:
  "want_tid \<notin> snd ` set l \<Longrightarrow> A2_unlink want_tid (c # l) = None"
  by (induction l arbitrary: c) auto

lemma A2_unlink_found:
  "want_tid \<notin> snd ` set l1 \<Longrightarrow> snd n = want_tid \<Longrightarrow>
   A2_unlink want_tid (c # l1 @ n # l2) = Some (n, c # l1 @ l2)"
  by (induction l1 arbitrary: c) auto

lemma A2_yield_switch_running:
  assumes "0 \<le> current_thread s" "nat (current_thread s) < length (threads s)"
      and "state (threads s ! nat (current_thread s)) = 1"
  shows "A2_yield_switch want_tid enabled s
         = Jump ((free_stuff s)\<lparr>threads := (threads s)[nat (current_thread s) :=
                    (threads s ! nat (current_thread s))
                      \<lparr>context := A2_InYield want_tid enabled, state := 2\<rparr>],
                  current_thread := want_tid\<rparr>)"
  using assms by (simp add: A2_yield_switch_def A2_yield_resume_def Let_def)

lemma A2_yield_any_empty:
  assumes "ready_head t = []"
  shows "A2_thread_yield new_node THREAD_ANY t = Return THREAD_NONE (t\<lparr>interrupts_enabled := False\<rparr>)"
  using assms by (simp add: A2_thread_yield_def Let_def interrupts_off_def)

lemma A2_yield_invalid:
  assumes "want_tid \<noteq> THREAD_ANY" "want_tid \<noteq> THREAD_SELF" "want_tid \<noteq> current_thread t"
      and "want_tid \<notin> snd ` set (ready_head t)"
  shows "A2_thread_yield new_node want_tid t = Return THREAD_INVALID (t\<lparr>interrupts_enabled := False\<rparr>)"
proof (cases "ready_head t")
  case Nil
  with assms show ?thesis
    by (simp add: A2_thread_yield_def Let_def interrupts_off_def A2_thread_id_def)
next
  case (Cons c l)
  with assms(4) have "want_tid \<noteq> snd c" "want_tid \<notin> snd ` set l" by auto
  then have "A2_unlink want_tid (c # l) = None" "want_tid \<noteq> snd c"
    by (simp_all add: A2_unlink_absent)
  with Cons assms show ?thesis
    by (simp add: A2_thread_yield_def Let_def interrupts_off_def A2_thread_id_def)
qed

lemma A2_yield_head:
  assumes c: "0 \<le> current_thread t" "nat (current_thread t) < length (threads t)"
      and st: "state (threads t ! nat (current_thread t)) = 1"
      and rq: "ready_head t = n # l2"
      and w: "want_tid = THREAD_ANY \<or> want_tid = snd n"
  shows "A2_thread_yield (Some nd) want_tid t
         = Jump ((free_stuff t)\<lparr>interrupts_enabled := False,
                   threads := (threads t)[nat (current_thread t) :=
                     (threads t ! nat (current_thread t))
                       \<lparr>context := A2_InYield (snd n) (interrupts_enabled t), state := 2\<rparr>],
                   current_thread := snd n,
                   ready_head := l2 @ [(nd, current_thread t)]\<rparr>)"
proof -
  let ?s = "(t\<lparr>interrupts_enabled := False\<rparr>)\<lparr>ready_head := l2 @ [(nd, current_thread t)]\<rparr>"
  have "A2_thread_yield (Some nd) want_tid t = A2_yield_switch (snd n) (interrupts_enabled t) ?s"
    using rq w by (auto simp: A2_thread_yield_def Let_def interrupts_off_def A2_thread_id_def
        ready_enqueue_def)
  also have "\<dots> = Jump ((free_stuff ?s)\<lparr>threads := (threads ?s)[nat (current_thread ?s) :=
                    (threads ?s ! nat (current_thread ?s))
                      \<lparr>context := A2_InYield (snd n) (interrupts_enabled t), state := 2\<rparr>],
                  current_thread := snd n\<rparr>)"
    using c st by (intro A2_yield_switch_running) simp_all
  finally show ?thesis by (simp add: free_stuff_def)
qed

lemma A2_yield_inner:
  assumes c: "0 \<le> current_thread t" "nat (current_thread t) < length (threads t)"
      and st: "state (threads t ! nat (current_thread t)) = 1"
      and len: "length (threads t) < 2 ^ 31"
      and rq: "ready_head t = c0 # l1 @ n # l2"
      and w: "snd n = want_tid" "want_tid \<notin> snd ` set (c0 # l1)" "want_tid \<noteq> current_thread t"
      and r: "0 \<le> want_tid" "nat want_tid < length (threads t)"
      and live: "state (threads t ! nat want_tid) \<noteq> 0"
  shows "A2_thread_yield (Some nd) want_tid t
         = Jump ((free_stuff t)\<lparr>interrupts_enabled := False,
                   threads := (threads t)[nat (current_thread t) :=
                     (threads t ! nat (current_thread t))
                       \<lparr>context := A2_InYield want_tid (interrupts_enabled t), state := 2\<rparr>],
                   current_thread := want_tid,
                   ready_head := c0 # l1 @ l2 @ [(nd, current_thread t)]\<rparr>)"
proof -
  let ?s = "(t\<lparr>interrupts_enabled := False\<rparr>)\<lparr>ready_head := c0 # l1 @ l2 @ [(nd, current_thread t)]\<rparr>"
  have u: "\<not> to_unsigned (int (length (threads t))) \<le> to_unsigned want_tid"
    using r len by (subst to_unsigned_ge_iff) auto
  have un: "A2_unlink want_tid (c0 # l1 @ n # l2) = Some (n, c0 # l1 @ l2)"
    using w by (intro A2_unlink_found) auto
  have ne: "want_tid \<noteq> THREAD_ANY" "want_tid \<noteq> THREAD_SELF" "want_tid \<noteq> snd c0"
    using r w by (auto simp: THREAD_ANY_def THREAD_SELF_def)
  have "A2_thread_yield (Some nd) want_tid t = A2_yield_switch want_tid (interrupts_enabled t) ?s"
    using rq ne w(3) u live un
    by (simp add: A2_thread_yield_def Let_def interrupts_off_def A2_thread_id_def ready_enqueue_def)
  also have "\<dots> = Jump ((free_stuff ?s)\<lparr>threads := (threads ?s)[nat (current_thread ?s) :=
                    (threads ?s ! nat (current_thread ?s))
                      \<lparr>context := A2_InYield want_tid (interrupts_enabled t), state := 2\<rparr>],
                  current_thread := want_tid\<rparr>)"
    using c st by (intro A2_yield_switch_running) simp_all
  finally show ?thesis by (simp add: free_stuff_def)
qed

lemma A2_setcontext_resumed:
  assumes "context (threads u ! nat (current_thread u)) = A2_InYield want_tid enabled"
      and "state (threads u ! nat (current_thread u)) = 2"
  shows "A2_setcontext u
         = Return want_tid ((free_stuff u)\<lparr>threads := (threads u)[nat (current_thread u) :=
                              (threads u ! nat (current_thread u))\<lparr>state := 1\<rparr>],
                            interrupts_enabled := enabled\<rparr>)"
  using assms by (simp add: A2_setcontext_def A2_yield_resume_def Let_def interrupts_set_def)

subsection \<open>\<^verbatim>\<open>thread_yield\<close> of A1\<close>

lemma blocks_last_next:
  "blocks h (Some a) as \<Longrightarrow> next (h (last as)) = None"
proof (induction as arbitrary: a)
  case Nil then show ?case by simp
next
  case (Cons b bs)
  then show ?case by (cases bs) auto
qed

lemma blocks_unlink:
  "blocks h p (l1 @ n # l2) \<Longrightarrow> l1 \<noteq> [] \<Longrightarrow>
   blocks (h(last l1 := (h (last l1))\<lparr>next := next (h n)\<rparr>)) p (l1 @ l2)"
proof (induction l1 arbitrary: p)
  case Nil then show ?case by simp
next
  case (Cons x xs)
  have d: "distinct ((x # xs) @ n # l2)" using Cons.prems(1) by (rule blocks_distinct)
  show ?case
  proof (cases xs)
    case Nil
    define h' where "h' = h(x := (h x)\<lparr>next := next (h n)\<rparr>)"
    have "x \<notin> set l2" using d by simp
    then have "blocks h' (next (h n)) l2 = blocks h (next (h n)) l2"
      unfolding h'_def by (rule blocks_upd_outside)
    moreover have "next (h' x) = next (h n)" by (simp add: h'_def)
    ultimately have f: "blocks h' p ([x] @ l2)" using Cons.prems Nil by simp
    have e: "last [x] = x" by simp
    show ?thesis using f unfolding h'_def Nil e .
  next
    case xs: (Cons y ys)
    define h' where "h' = h(last xs := (h (last xs))\<lparr>next := next (h n)\<rparr>)"
    have "blocks h (next (h x)) (xs @ n # l2)" using Cons.prems(1) by simp
    then have ih: "blocks h' (next (h x)) (xs @ l2)"
      unfolding h'_def using xs by (intro Cons.IH) simp_all
    have "last xs \<in> set xs" using xs by simp
    with d have "last xs \<noteq> x" by auto
    then have "next (h' x) = next (h x)" by (simp add: h'_def)
    with ih Cons.prems(1) have f: "blocks h' p ((x # xs) @ l2)" by simp
    have e: "last (x # xs) = last xs" using xs by simp
    show ?thesis using f unfolding h'_def e .
  qed
qed

lemma A1_find_prev_absent:
  "blocks h (Some p) (p # l) \<Longrightarrow> want_tid \<notin> (\<lambda>a. TID (h a)) ` set l \<Longrightarrow>
   A1_find_prev h p want_tid = Some (last (p # l))"
proof (induction l arbitrary: p)
  case Nil
  then show ?case by (subst A1_find_prev.simps) simp
next
  case (Cons q l)
  then have "A1_find_prev h q want_tid = Some (last (q # l))" by (intro Cons.IH) auto
  with Cons.prems show ?case by (subst A1_find_prev.simps) simp
qed

lemma A1_find_prev_found:
  "blocks h (Some p) (p # l1 @ n # l2) \<Longrightarrow> TID (h n) = want_tid \<Longrightarrow>
   want_tid \<notin> (\<lambda>a. TID (h a)) ` set l1 \<Longrightarrow>
   A1_find_prev h p want_tid = Some (last (p # l1))"
proof (induction l1 arbitrary: p)
  case Nil
  then show ?case by (subst A1_find_prev.simps) simp
next
  case (Cons q l)
  then have "A1_find_prev h q want_tid = Some (last (q # l))" by (intro Cons.IH) auto
  with Cons.prems show ?case by (subst A1_find_prev.simps) simp
qed

lemma blocks_next_of_last:
  "blocks h p (l1 @ n # l2) \<Longrightarrow> l1 \<noteq> [] \<Longrightarrow> next (h (last l1)) = Some n"
proof (induction l1 arbitrary: p)
  case Nil then show ?case by simp
next
  case (Cons x xs)
  then show ?case by (cases xs) auto
qed

lemma A1_yield_switch_running:
  assumes "state (heap s (current_thread_p s)) = 1"
  shows "A1_yield_switch want_tid wanted s
         = Jump ((set_state (current_thread_p s) 2
                   (free_stuff (set_context (current_thread_p s) (A1_InYield want_tid wanted) s)))
                 \<lparr>current_thread_p := wanted\<rparr>)"
  using assms by (simp add: A1_yield_switch_def A1_yield_resume_def Let_def)

lemma A1_yield_any_empty:
  assumes "next (heap s (current_thread_p s)) = None"
  shows "A1_thread_yield N THREAD_ANY s = Some (Return THREAD_NONE s)"
  using assms by (simp add: A1_thread_yield_def Let_def)

lemma A1_yield_invalid:
  assumes w: "want_tid \<noteq> THREAD_ANY" "want_tid \<noteq> THREAD_SELF"
             "want_tid \<noteq> TID (heap s (current_thread_p s))"
      and rs: "blocks (heap s) (next (heap s (current_thread_p s))) rs"
      and nin: "want_tid \<notin> (\<lambda>a. TID (heap s a)) ` set rs"
  shows "A1_thread_yield N want_tid s = Some (Return THREAD_INVALID s)"
proof (cases rs)
  case Nil
  with rs have "next (heap s (current_thread_p s)) = None" by simp
  with w show ?thesis by (simp add: A1_thread_yield_def Let_def A1_thread_id_def)
next
  case (Cons r l)
  with rs have n: "next (heap s (current_thread_p s)) = Some r" and b: "blocks (heap s) (Some r) (r # l)"
    by auto
  from nin Cons have t: "want_tid \<noteq> TID (heap s r)" "want_tid \<notin> (\<lambda>a. TID (heap s a)) ` set l"
    by auto
  from b t(2) have f: "A1_find_prev (heap s) r want_tid = Some (last (r # l))"
    by (rule A1_find_prev_absent)
  from b have "next (heap s (last (r # l))) = None" by (rule blocks_last_next)
  with w n t f show ?thesis
    by (simp add: A1_thread_yield_def Let_def A1_thread_id_def)
qed

text \<open>The run list after the caller has been moved behind the last ready block.\<close>

lemma blocks_rotate:
  assumes b: "blocks (heap s) (Some r) rs" and c: "c \<notin> set rs"
  shows "blocks (heap (set_next c None (set_next (last rs) (Some c) s))) (Some r) (rs @ [c])"
proof -
  let ?sT = "set_next (last rs) (Some c) (set_next c None s)"
  have "rs \<noteq> []" using b by auto
  then have "last rs \<in> set rs" by simp
  with c have ne: "last rs \<noteq> c" by auto
  have "blocks (heap (set_next c None s)) (Some r) rs"
    using b c by (simp add: blocks_set_next_outside)
  then have "blocks (heap ?sT) (Some r) (rs @ [c])"
    using c by (rule blocks_set_next_snoc) simp
  moreover have "blocks (heap (set_next c None (set_next (last rs) (Some c) s))) (Some r) (rs @ [c])
                 = blocks (heap ?sT) (Some r) (rs @ [c])"
    using ne by (intro blocks_cong_next) auto
  ultimately show ?thesis by simp
qed

lemma A1_yield_head:
  assumes run: "blocks (heap s) (Some (current_thread_p s)) (current_thread_p s # n # l2)"
      and st: "state (heap s (current_thread_p s)) = 1"
      and w: "want_tid = THREAD_ANY \<or> want_tid = TID (heap s n)"
  shows "\<exists>s'. A1_thread_yield N want_tid s = Some (Jump s')
           \<and> current_thread_p s' = n
           \<and> blocks (heap s') (Some n) (n # l2 @ [current_thread_p s])
           \<and> state (heap s' (current_thread_p s)) = 2
           \<and> context (heap s' (current_thread_p s)) = A1_InYield (TID (heap s n)) n
           \<and> (\<forall>a. TID (heap s' a) = TID (heap s a))
           \<and> (\<forall>a. a \<noteq> current_thread_p s \<longrightarrow> state (heap s' a) = state (heap s a)
                  \<and> context (heap s' a) = context (heap s a))"
proof -
  let ?c = "current_thread_p s"
  let ?z = "last (?c # n # l2)"
  let ?s4 = "set_next ?c None (set_next ?z (Some ?c) s)"
  let ?w = "TID (heap s n)"
  let ?s' = "(set_state ?c 2 (free_stuff (set_context ?c (A1_InYield ?w n) ?s4)))\<lparr>current_thread_p := n\<rparr>"
  from run have nx: "next (heap s ?c) = Some n" and rb: "blocks (heap s) (Some n) (n # l2)"
    by auto
  have cn: "?c \<notin> set (n # l2)" using run by (rule blocks_not_in_tail)
  have add: "A1_add_to_end ?c s = Some (set_next ?z (Some ?c) s)"
    using run by (rule A1_add_to_end_blocks)
  have "A1_thread_yield N want_tid s = Some (A1_yield_switch ?w n ?s4)"
    using nx w add by (auto simp: A1_thread_yield_def Let_def)
  moreover have "A1_yield_switch ?w n ?s4 = Jump ?s'"
    using st by (subst A1_yield_switch_running) simp_all
  ultimately have 1: "A1_thread_yield N want_tid s = Some (Jump ?s')" by simp
  have "blocks (heap (set_next ?c None (set_next (last (n # l2)) (Some ?c) s))) (Some n) ((n # l2) @ [?c])"
    using rb cn by (rule blocks_rotate)
  then have 2: "blocks (heap ?s') (Some n) (n # l2 @ [?c])" by simp
  show ?thesis using 1 2 by (intro exI [of _ ?s']) simp
qed


lemma A1_yield_inner:
  assumes run: "blocks (heap s) (Some (current_thread_p s))
                  (current_thread_p s # r1 # l1 @ n # l2)"
      and st: "state (heap s (current_thread_p s)) = 1"
      and w: "TID (heap s n) = want_tid"
             "want_tid \<notin> (\<lambda>a. TID (heap s a)) ` set (r1 # l1)"
             "want_tid \<noteq> TID (heap s (current_thread_p s))"
      and r: "0 \<le> want_tid" "want_tid < int N" "N < 2 ^ 31"
  shows "\<exists>s'. A1_thread_yield N want_tid s = Some (Jump s')
           \<and> current_thread_p s' = n
           \<and> blocks (heap s') (Some n) (n # r1 # l1 @ l2 @ [current_thread_p s])
           \<and> state (heap s' (current_thread_p s)) = 2
           \<and> context (heap s' (current_thread_p s)) = A1_InYield want_tid n
           \<and> (\<forall>a. TID (heap s' a) = TID (heap s a))
           \<and> (\<forall>a. a \<noteq> current_thread_p s \<longrightarrow> state (heap s' a) = state (heap s a)
                  \<and> context (heap s' a) = context (heap s a))"
proof -
  let ?c = "current_thread_p s"
  let ?prev = "last (r1 # l1)"
  let ?rs = "r1 # l1 @ l2"
  let ?s1 = "set_next ?prev (next (heap s n)) s"
  let ?s2 = "set_next n (Some r1) ?s1"
  let ?z = "last ?rs"
  let ?s4 = "set_next ?c None (set_next ?z (Some ?c) ?s2)"
  let ?s' = "(set_state ?c 2 (free_stuff (set_context ?c (A1_InYield want_tid n) ?s4)))
               \<lparr>current_thread_p := n\<rparr>"
  have d: "distinct (?c # r1 # l1 @ n # l2)" using run by (rule blocks_distinct)
  from run have nx: "next (heap s ?c) = Some r1"
    and rb: "blocks (heap s) (Some r1) (r1 # l1 @ n # l2)" by auto
  have fp: "A1_find_prev (heap s) r1 want_tid = Some ?prev"
    using rb w(1,2) by (intro A1_find_prev_found) auto
  have "blocks (heap s) (Some r1) ((r1 # l1) @ n # l2)" using rb by simp
  then have np: "next (heap s ?prev) = Some n" by (rule blocks_next_of_last) simp
  have pin: "?prev \<in> set (r1 # l1)" by (rule last_in_set) simp
  with d have pc: "?prev \<noteq> ?c" "?prev \<noteq> n" by auto
  have zin: "?z \<in> set ?rs" by (rule last_in_set) simp
  with d have zc: "?z \<noteq> ?c" "?z \<noteq> n" by auto
  have nc: "n \<noteq> ?c" using d by auto
  have "blocks (heap s) (Some ?c) ((?c # r1 # l1) @ n # l2)" using run by simp
  then have "blocks ((heap s)(last (?c # r1 # l1) := (heap s (last (?c # r1 # l1)))\<lparr>next := next (heap s n)\<rparr>))
               (Some ?c) ((?c # r1 # l1) @ l2)"
    by (rule blocks_unlink) simp
  then have b1: "blocks (heap ?s1) (Some ?c) (?c # ?rs)" by (simp add: set_next_def)
  have nn: "n \<notin> set (?c # ?rs)" using d by auto
  have b2: "blocks (heap ?s2) (Some ?c) (?c # ?rs)"
    unfolding blocks_set_next_outside [OF nn] by (rule b1)
  then have b2r: "blocks (heap ?s2) (Some r1) ?rs" using pc nc nx by simp
  have add: "A1_add_to_end ?c ?s2 = Some (set_next ?z (Some ?c) ?s2)"
  proof -
    have "blocks (heap ?s2) (Some (current_thread_p ?s2)) (?c # ?rs)" using b2 by simp
    then have "A1_add_to_end ?c ?s2 = Some (set_next (last (?c # ?rs)) (Some ?c) ?s2)"
      by (rule A1_add_to_end_blocks)
    then show ?thesis by simp
  qed
  have u: "\<not> to_unsigned (int N) \<le> to_unsigned want_tid"
    using r by (subst to_unsigned_ge_iff) auto
  have ne: "want_tid \<noteq> THREAD_ANY" "want_tid \<noteq> THREAD_SELF" "want_tid \<noteq> TID (heap s r1)"
    using r w by (auto simp: THREAD_ANY_def THREAD_SELF_def)
  have n1c: "next (heap ?s1 ?c) = Some r1" using pc nx by simp
  have "A1_thread_yield N want_tid s = Some (A1_yield_switch want_tid n ?s4)"
    using nx ne w(3) u fp np n1c add
    by (simp add: A1_thread_yield_def Let_def A1_thread_id_def)
  moreover have "A1_yield_switch want_tid n ?s4 = Jump ?s'"
    using st by (subst A1_yield_switch_running) simp_all
  ultimately have 1: "A1_thread_yield N want_tid s = Some (Jump ?s')" by simp
  have "?c \<notin> set ?rs" using d by auto
  with b2r have "blocks (heap ?s4) (Some r1) (?rs @ [?c])" by (rule blocks_rotate)
  moreover have "next (heap ?s4 n) = Some r1" using nc zc by simp
  ultimately have "blocks (heap ?s4) (Some n) (n # ?rs @ [?c])" by simp
  then have 2: "blocks (heap ?s') (Some n) (n # r1 # l1 @ l2 @ [?c])" by simp
  show ?thesis using 1 2 nc by (intro exI [of _ ?s']) simp
qed

text \<open>
  A thread that was killed while it was suspended in \<^verbatim>\<open>thread_yield\<close> goes to
  \<^verbatim>\<open>thread_exit\<close> as soon as it is resumed.
\<close>

lemma A1_setcontext_killed:
  assumes "context (heap u (current_thread_p u)) = A1_InYield want_tid wanted"
      and "state (heap u (current_thread_p u)) = 3"
  shows "A1_setcontext u = A1_thread_exit 0 (free_stuff u)"
  using assms by (simp add: A1_setcontext_def A1_yield_resume_def Let_def)

lemma A1_setcontext_resumed:
  assumes "context (heap u (current_thread_p u)) = A1_InYield want_tid wanted"
      and "state (heap u (current_thread_p u)) = 2"
  shows "A1_setcontext u = Return want_tid (set_state (current_thread_p u) 1 (free_stuff u))"
  using assms by (simp add: A1_setcontext_def A1_yield_resume_def Let_def)

subsection \<open>Resolution of the target of \<^verbatim>\<open>thread_yield\<close>\<close>

lemma A2_yield_target:
  assumes c: "0 \<le> current_thread t" "nat (current_thread t) < length (threads t)"
      and len: "length (threads t) < 2 ^ 31"
      and st: "state (threads t ! nat (current_thread t)) = 1"
      and ids: "\<forall>n\<in>set (ready_head t). 0 \<le> snd n \<and> snd n \<noteq> current_thread t"
      and rq: "ready_head t = l1 @ n # l2"
      and w: "(w = THREAD_ANY \<and> l1 = [])
              \<or> (w = snd n \<and> w \<notin> snd ` set l1 \<and> nat w < length (threads t)
                  \<and> state (threads t ! nat w) \<noteq> 0)"
  shows "\<exists>t'. A2_thread_yield (Some nd) w t = Jump t'
           \<and> current_thread t' = snd n
           \<and> ready_head t' = l1 @ l2 @ [(nd, current_thread t)]
           \<and> length (threads t') = length (threads t)
           \<and> state (threads t' ! nat (current_thread t)) = 2
           \<and> context (threads t' ! nat (current_thread t))
               = A2_InYield (snd n) (interrupts_enabled t)
           \<and> (\<forall>i. i \<noteq> nat (current_thread t) \<longrightarrow> threads t' ! i = threads t ! i)"
proof (cases l1)
  case Nil
  with rq have r: "ready_head t = n # l2" by simp
  from w Nil have "w = THREAD_ANY \<or> w = snd n" by auto
  from A2_yield_head [OF c st r this, of nd] show ?thesis
    using c Nil by simp
next
  case (Cons c0 l1')
  with w have w': "w = snd n" "w \<notin> snd ` set (c0 # l1')" "nat w < length (threads t)"
    "state (threads t ! nat w) \<noteq> 0"
    by (auto simp: THREAD_ANY_def)
  from rq Cons have r: "ready_head t = c0 # l1' @ n # l2" by simp
  then have "n \<in> set (ready_head t)" by simp
  with ids w'(1) have w0: "0 \<le> w" "w \<noteq> current_thread t" by auto
  from A2_yield_inner [OF c st len r w'(1) [symmetric] w'(2) w0(2) w0(1) w'(3) w'(4), of nd]
  show ?thesis using c Cons w'(1) by simp
qed

lemma A2_yield_to_self:
  assumes c: "0 \<le> current_thread t" "nat (current_thread t) < length (threads t)"
      and st: "state (threads t ! nat (current_thread t)) = 1"
      and ids: "\<forall>n\<in>set (ready_head t). 0 \<le> snd n \<and> snd n \<noteq> current_thread t"
  shows "\<exists>t'. A2_thread_yield new_node THREAD_SELF t = Jump t'
           \<and> current_thread t' = current_thread t
           \<and> ready_head t' = ready_head t
           \<and> state (threads t' ! nat (current_thread t)) = 2
           \<and> context (threads t' ! nat (current_thread t))
               = A2_InYield (current_thread t) (interrupts_enabled t)"
proof -
  have "A2_thread_yield new_node THREAD_SELF t
        = A2_yield_switch (current_thread t) (interrupts_enabled t) (t\<lparr>interrupts_enabled := False\<rparr>)"
    using ids by (intro A2_yield_self_branch) (auto simp: THREAD_ANY_def THREAD_SELF_def)
  also have "\<dots> = Jump ((free_stuff (t\<lparr>interrupts_enabled := False\<rparr>))
       \<lparr>threads := (threads t)[nat (current_thread t) :=
                    (threads t ! nat (current_thread t))
                      \<lparr>context := A2_InYield (current_thread t) (interrupts_enabled t), state := 2\<rparr>],
        current_thread := current_thread t\<rparr>)"
    using c st by (subst A2_yield_switch_running) simp_all
  finally show ?thesis using c by simp
qed

lemma A1_yield_target:
  assumes run: "blocks (heap s) (Some (current_thread_p s)) (current_thread_p s # rs)"
      and st: "state (heap s (current_thread_p s)) = 1"
      and ids: "\<forall>a\<in>set rs. 0 \<le> TID (heap s a) \<and> TID (heap s a) < int N
                 \<and> TID (heap s a) \<noteq> TID (heap s (current_thread_p s))"
      and N: "N < 2 ^ 31"
      and rq: "rs = l1 @ n # l2"
      and w: "(w = THREAD_ANY \<and> l1 = [])
              \<or> (w = TID (heap s n) \<and> w \<notin> (\<lambda>a. TID (heap s a)) ` set l1)"
  shows "\<exists>s'. A1_thread_yield N w s = Some (Jump s')
           \<and> current_thread_p s' = n
           \<and> blocks (heap s') (Some n) (n # l1 @ l2 @ [current_thread_p s])
           \<and> state (heap s' (current_thread_p s)) = 2
           \<and> context (heap s' (current_thread_p s)) = A1_InYield (TID (heap s n)) n
           \<and> (\<forall>a. TID (heap s' a) = TID (heap s a))
           \<and> (\<forall>a. a \<noteq> current_thread_p s \<longrightarrow> state (heap s' a) = state (heap s a)
                  \<and> context (heap s' a) = context (heap s a))"
proof (cases l1)
  case Nil
  with run rq have r: "blocks (heap s) (Some (current_thread_p s)) (current_thread_p s # n # l2)"
    by simp
  from w Nil have "w = THREAD_ANY \<or> w = TID (heap s n)" by auto
  from A1_yield_head [OF r st this, of N] show ?thesis using Nil by simp
next
  case (Cons r1 l1')
  with w have w': "TID (heap s n) = w" "w \<notin> (\<lambda>a. TID (heap s a)) ` set (r1 # l1')"
    by (auto simp: THREAD_ANY_def)
  from run rq Cons
  have r: "blocks (heap s) (Some (current_thread_p s)) (current_thread_p s # r1 # l1' @ n # l2)"
    by simp
  have "n \<in> set rs" using rq by simp
  with ids w'(1) have w0: "0 \<le> w" "w < int N" "w \<noteq> TID (heap s (current_thread_p s))"
    by auto
  from A1_yield_inner [OF r st w' w0(3) w0(1,2) N]
  show ?thesis using Cons w'(1) by simp
qed

lemma A1_yield_to_self:
  assumes run: "blocks (heap s) (Some (current_thread_p s)) (current_thread_p s # rs)"
      and st: "state (heap s (current_thread_p s)) = 1"
      and ids: "\<forall>a\<in>set rs. 0 \<le> TID (heap s a) \<and> TID (heap s a) < int N
                 \<and> TID (heap s a) \<noteq> TID (heap s (current_thread_p s))"
  shows "\<exists>s'. A1_thread_yield N THREAD_SELF s = Some (Jump s')
           \<and> current_thread_p s' = current_thread_p s
           \<and> blocks (heap s') (Some (current_thread_p s)) (current_thread_p s # rs)
           \<and> state (heap s' (current_thread_p s)) = 2
           \<and> context (heap s' (current_thread_p s))
               = A1_InYield (TID (heap s (current_thread_p s))) (current_thread_p s)"
proof -
  have hd: "TID (heap s n) \<noteq> THREAD_SELF" if "next (heap s (current_thread_p s)) = Some n" for n
  proof -
    from that run have "n \<in> set rs" by (cases rs) auto
    with ids show ?thesis by (auto simp: THREAD_SELF_def)
  qed
  have "A1_thread_yield N THREAD_SELF s
        = Some (A1_yield_switch (TID (heap s (current_thread_p s))) (current_thread_p s) s)"
    using hd by (intro A1_yield_self_branch) (auto simp: THREAD_ANY_def THREAD_SELF_def)
  then show ?thesis using run st by (simp add: A1_yield_switch_running)
qed

section \<open>The claims\<close>

text \<open>
  C1. The claim: every operation that changes the scheduler state returns with the
  interrupt-enabled flag it was entered with, on every exit path, error returns
  included. The code does not: \<^verbatim>\<open>thread_create\<close> of A2 turns interrupts off and, when
  every slot of the table is in use, returns \<^verbatim>\<open>THREAD_NOMORE\<close> before
  \<^verbatim>\<open>interrupts_set(enabled)\<close>. Entered with interrupts enabled on a full table, it
  returns with interrupts disabled and the rest of the state unchanged.
\<close>

theorem C1_thread_create_nomore_leaves_interrupts_off:
  "interrupts_enabled a2_full
   \<and> A2_thread_create fn parg stack new_node a2_full
       = (THREAD_NOMORE, a2_full\<lparr>interrupts_enabled := False\<rparr>)"
  by (simp add: A2_thread_create_def A2_find_tid.simps interrupts_off_def a2_full_def
      mk_thread_def thread_consts)

text \<open>
  C2. The claim: a call that returns a failure result leaves the scheduler state as it
  was; in particular \<^verbatim>\<open>thread_create\<close> whose stack allocation fails returns
  out-of-memory and leaves the chosen slot unused. The code of A2 sets the state of the
  chosen slot to 1 before it allocates the stack and returns \<^verbatim>\<open>THREAD_NOMEMORY\<close> without
  setting it back: slot 1, unused before the call, is in use after it.
\<close>

theorem C2_thread_create_nomemory_keeps_slot:
  "state (threads a2_one ! 1) = 0
   \<and> fst (A2_thread_create fn parg None new_node a2_one) = THREAD_NOMEMORY
   \<and> state (threads (snd (A2_thread_create fn parg None new_node a2_one)) ! 1) = 1"
  by (simp add: A2_thread_create_def A2_find_tid.simps interrupts_off_def a2_one_def
      mk_thread_def thread_consts)

text \<open>
  C3. The claim: a thread killed while READY, a freshly created one included, goes
  into \<^verbatim>\<open>thread_exit\<close> when it is next dispatched and runs no user code. In A1 the
  check of the state (\<^verbatim>\<open>state == 3\<close>) is made only after \<^verbatim>\<open>getcontext\<close> in
  \<^verbatim>\<open>thread_yield\<close>: a thread killed while suspended there does exit when it is
  resumed (lemma \<open>A1_setcontext_killed\<close>). \<^verbatim>\<open>thread_stub\<close>, where a fresh thread
  starts, does not make the check. The thread created with entry function 7 and
  argument 8 and killed before it has run (its state is 3) is dispatched by
  \<^verbatim>\<open>thread_yield(THREAD_ANY)\<close>, and \<^verbatim>\<open>thread_stub\<close> calls its entry function.
\<close>

theorem C3_killed_fresh_thread_runs_entry:
  "map_option fst (A1_thread_create 4 7 8 (Some 1) (Some 1000) a1_init) = Some 1
   \<and> map_option fst (A1_thread_kill 1 a1_created) = Some 1
   \<and> state (heap a1_killed 1) = 3
   \<and> (case Option.bind (A1_thread_yield 4 THREAD_ANY a1_killed) A1_run of
         Some (Enter fn parg s) \<Rightarrow>
           fn = 7 \<and> parg = 8 \<and> current_thread_p s = 1 \<and> state (heap s 1) = 3
       | _ \<Rightarrow> False)"
  by (simp add: a1_killed_def a1_created_def a1_init_def a1_evals)

text \<open>
  C4. The claim: \<^verbatim>\<open>thread_kill(id)\<close> fails with invalid-target exactly when \<open>id\<close> is
  unknown, is the caller's own, or names an already dead (killed or exited) thread, and
  otherwise returns \<open>id\<close> and marks the target without leaving the caller. Neither
  revision looks for the mark of a killed thread: A1 matches on the identifier alone,
  and a thread that was killed stays in the run list until it is dispatched, so that
  until then \<^verbatim>\<open>thread_kill\<close> finds it again and returns its identifier. As amended: in
  A2 the call fails exactly when \<open>id\<close> is the caller's, is outside the table, or names a
  slot whose state is 0 (unused); in A1 it fails exactly when no control block queued
  behind the caller has the identifier \<open>id\<close>, whatever the state of the blocks, so that
  killing a killed thread that is still queued succeeds again. A failed call changes
  nothing. A successful one returns \<open>id\<close>, leaves the caller running and changes
  the state field of the target's control block and nothing else: in A1 the target is
  the first block behind the caller with the identifier \<open>id\<close> and its state becomes 3
  (the result is \<open>set_state a 3 s\<close>); in A2 the state of slot \<open>id\<close> is given a value
  different from the one it had, and every other field of the slot, every other slot,
  the current thread, the ready list and the interrupt flag are as before.
\<close>

theorem C4_thread_kill:
  assumes "length (threads t) < 2 ^ 31" "- (2 ^ 31) \<le> tid" "tid < 2 ^ 31"
      and "blocks (heap s) (next (heap s (current_thread_p s))) rs"
      and "\<forall>a\<in>set rs. 0 \<le> TID (heap s a)"
  shows "((fst (A2_thread_kill tid t) = THREAD_INVALID \<longleftrightarrow>
            (tid = current_thread t \<or> tid < 0 \<or> int (length (threads t)) \<le> tid
             \<or> state (threads t ! nat tid) = 0))
         \<and> (fst (A2_thread_kill tid t) = THREAD_INVALID \<longrightarrow> snd (A2_thread_kill tid t) = t)
         \<and> (fst (A2_thread_kill tid t) \<noteq> THREAD_INVALID \<longrightarrow>
               fst (A2_thread_kill tid t) = tid
               \<and> current_thread (snd (A2_thread_kill tid t)) = current_thread t
               \<and> ready_head (snd (A2_thread_kill tid t)) = ready_head t
               \<and> interrupts_enabled (snd (A2_thread_kill tid t)) = interrupts_enabled t
               \<and> (\<forall>i. i \<noteq> nat tid \<longrightarrow>
                      threads (snd (A2_thread_kill tid t)) ! i = threads t ! i)
               \<and> (\<exists>v. v \<noteq> state (threads t ! nat tid)
                      \<and> snd (A2_thread_kill tid t) =
                          t\<lparr>threads := (threads t)[nat tid := (threads t ! nat tid)\<lparr>state := v\<rparr>]\<rparr>)))
       \<and> (\<exists>r s'. A1_thread_kill tid s = Some (r, s')
          \<and> (r = THREAD_INVALID \<longleftrightarrow> tid \<notin> (\<lambda>a. TID (heap s a)) ` set rs)
          \<and> (r = THREAD_INVALID \<longrightarrow> s' = s)
          \<and> (r \<noteq> THREAD_INVALID \<longrightarrow>
                r = tid \<and> current_thread_p s' = current_thread_p s
                \<and> blocks (heap s') (next (heap s' (current_thread_p s'))) rs
                \<and> (\<exists>a\<in>set rs. TID (heap s a) = tid \<and> state (heap s' a) = 3)
                \<and> (\<exists>a. find (\<lambda>a. TID (heap s a) = tid) rs = Some a \<and> s' = set_state a 3 s)
                \<and> A1_thread_kill tid s' = Some (tid, s')))"
  using A2_kill [OF assms(1-3)] A1_kill [OF assms(4,5), of tid] by blast

theorem C4_thread_kill_witness:
  "length (threads a2_full) < 2 ^ 31 \<and> - (2 ^ 31) \<le> (1::int) \<and> (1::int) < 2 ^ 31
   \<and> blocks (heap a1_created) (next (heap a1_created (current_thread_p a1_created))) [1]
   \<and> 0 \<le> TID (heap a1_created 1)
   \<and> fst (A2_thread_kill 1 a2_full) = 1
   \<and> current_thread (snd (A2_thread_kill 1 a2_full)) = current_thread a2_full
   \<and> map_option fst (A1_thread_kill 1 a1_created) = Some 1"
proof -
  have 1: "length (threads a2_full) < 2 ^ 31" by (simp add: a2_full_def)
  have 2: "- (2 ^ 31) \<le> (1::int)" "(1::int) < 2 ^ 31" by simp_all
  have 3: "blocks (heap a1_created) (next (heap a1_created (current_thread_p a1_created))) [1]"
    by (simp add: a1_created_def a1_init_def a1_evals)
  have 4: "\<forall>a\<in>set [1]. 0 \<le> TID (heap a1_created a)"
    by (simp add: a1_created_def a1_init_def a1_evals)
  have 5: "fst (A2_thread_kill 1 a2_full) \<noteq> THREAD_INVALID"
    by (simp add: A2_thread_kill_def A2_thread_id_def to_unsigned_def interrupts_off_def
        interrupts_set_def a2_full_def mk_thread_def thread_consts)
  have 6: "(1::int) \<in> (\<lambda>a. TID (heap a1_created a)) ` set [1]"
    by (simp add: a1_created_def a1_init_def a1_evals)
  from C4_thread_kill [OF 1 2 3 4] 5 6 have
    "fst (A2_thread_kill 1 a2_full) = 1
     \<and> current_thread (snd (A2_thread_kill 1 a2_full)) = current_thread a2_full
     \<and> map_option fst (A1_thread_kill 1 a1_created) = Some 1"
    by auto
  moreover from 4 have "0 \<le> TID (heap a1_created 1)" by simp
  ultimately show ?thesis using 1 2 3 by blast
qed

text \<open>
  The claim fails in A1 at a thread that was killed before: thread 1 of \<open>a1_killed\<close> is
  in state 3, and \<^verbatim>\<open>thread_kill(1)\<close> returns 1, not invalid-target.
\<close>

theorem C4_kill_of_killed_thread_counterexample:
  "state (heap a1_killed 1) = 3
   \<and> map_option fst (A1_thread_kill 1 a1_killed) = Some 1
   \<and> map_option fst (A1_thread_kill 1 a1_killed) \<noteq> Some THREAD_INVALID"
  by (simp add: a1_killed_def a1_created_def a1_init_def a1_evals)

text \<open>
  C5. The claim: \<^verbatim>\<open>thread_create\<close> returns the smallest identifier held by no live
  thread, fails with capacity-exhausted when every slot is in use, and returns an
  identifier again only after its previous holder has been reclaimed. A1 never hands
  out identifier 0, which belongs to the initial thread: its search starts at 1, also
  after the initial thread has exited. As amended, for calls whose allocations
  succeed: A2 returns the lowest index of the table whose slot has state 0, marks the
  slot in use and appends the identifier to the ready list, and it fails with
  \<^verbatim>\<open>THREAD_NOMORE\<close> when no slot has state 0; A1 returns the smallest identifier among
  \<open>1 .. THREAD_MAX_THREADS - 1\<close> that no control block of the run list holds and
  appends the new block to the run list, and it fails with \<^verbatim>\<open>THREAD_NOMORE\<close>, changing
  nothing, when all of these identifiers are held. In A1 an identifier held by a
  block of the run list is therefore never returned.
\<close>

theorem C5_thread_create:
  assumes "threads t \<noteq> []"
      and "blocks (heap s) (Some (current_thread_p s)) as"
      and "a \<notin> set as"
      and "0 < N"
  shows "((\<forall>i<length (threads t). state (threads t ! i) \<noteq> 0) \<longrightarrow>
            fst (A2_thread_create fn parg stack new_node t) = THREAD_NOMORE)
       \<and> (\<forall>j<length (threads t).
             state (threads t ! j) = 0 \<and> (\<forall>i<j. state (threads t ! i) \<noteq> 0) \<longrightarrow>
             A2_thread_create fn parg (Some st) (Some nd) t
             = (int j, t\<lparr>threads := (threads t)[j := (threads t ! j)
                             \<lparr>TID := int j, state := 1, thread_stack := Some st,
                              context := AtStub fn parg\<rparr>],
                         ready_head := ready_head t @ [(nd, int j)]\<rparr>))
       \<and> ((\<forall>i. 0 < i \<and> i < int N \<longrightarrow> i \<in> (\<lambda>b. TID (heap s b)) ` set as) \<longrightarrow>
            A1_thread_create N fn parg new_thread stack s = Some (THREAD_NOMORE, s))
       \<and> (\<forall>j. 0 < j \<and> j < int N \<and> j \<notin> (\<lambda>b. TID (heap s b)) ` set as
               \<and> (\<forall>i. 0 < i \<and> i < j \<longrightarrow> i \<in> (\<lambda>b. TID (heap s b)) ` set as) \<longrightarrow>
             (\<exists>s'. A1_thread_create N fn parg (Some a) (Some st) s = Some (j, s')
                \<and> blocks (heap s') (Some (current_thread_p s')) (as @ [a])
                \<and> current_thread_p s' = current_thread_p s
                \<and> TID (heap s' a) = j \<and> state (heap s' a) = 1
                \<and> context (heap s' a) = AtStub fn parg
                \<and> thread_stack (heap s' a) = Some st
                \<and> (\<forall>b. b \<noteq> a \<longrightarrow> TID (heap s' b) = TID (heap s b)
                       \<and> state (heap s' b) = state (heap s b)
                       \<and> context (heap s' b) = context (heap s b))))"
proof (intro conjI allI impI)
  assume "\<forall>i<length (threads t). state (threads t ! i) \<noteq> 0"
  with assms(1) show "fst (A2_thread_create fn parg stack new_node t) = THREAD_NOMORE"
    by (simp add: A2_create_full)
next
  fix j assume "j < length (threads t)"
    "state (threads t ! j) = 0 \<and> (\<forall>i<j. state (threads t ! i) \<noteq> 0)"
  then show "A2_thread_create fn parg (Some st) (Some nd) t
             = (int j, t\<lparr>threads := (threads t)[j := (threads t ! j)
                             \<lparr>TID := int j, state := 1, thread_stack := Some st,
                              context := AtStub fn parg\<rparr>],
                         ready_head := ready_head t @ [(nd, int j)]\<rparr>)"
    by (intro A2_create_least) auto
next
  assume "\<forall>i. 0 < i \<and> i < int N \<longrightarrow> i \<in> (\<lambda>b. TID (heap s b)) ` set as"
  with assms(2,4) show "A1_thread_create N fn parg new_thread stack s = Some (THREAD_NOMORE, s)"
    by (rule A1_create_full)
next
  fix j assume j: "0 < j \<and> j < int N \<and> j \<notin> (\<lambda>b. TID (heap s b)) ` set as
               \<and> (\<forall>i. 0 < i \<and> i < j \<longrightarrow> i \<in> (\<lambda>b. TID (heap s b)) ` set as)"
  show "\<exists>s'. A1_thread_create N fn parg (Some a) (Some st) s = Some (j, s')
                \<and> blocks (heap s') (Some (current_thread_p s')) (as @ [a])
                \<and> current_thread_p s' = current_thread_p s
                \<and> TID (heap s' a) = j \<and> state (heap s' a) = 1
                \<and> context (heap s' a) = AtStub fn parg
                \<and> thread_stack (heap s' a) = Some st
                \<and> (\<forall>b. b \<noteq> a \<longrightarrow> TID (heap s' b) = TID (heap s b)
                       \<and> state (heap s' b) = state (heap s b)
                       \<and> context (heap s' b) = context (heap s b))"
    using assms(2,3) j by (intro A1_create_least) auto
qed

theorem C5_thread_create_witness:
  "threads a2_one \<noteq> [] \<and> threads a2_full \<noteq> []
   \<and> blocks (heap a1_created) (Some (current_thread_p a1_created)) [0, 1]
   \<and> 2 \<notin> set [0, 1::nat]
   \<and> map (\<lambda>x. state x) (threads a2_full) = [1, 1]
   \<and> fst (A2_thread_create 7 8 None None a2_full) = THREAD_NOMORE
   \<and> map (\<lambda>x. state x) (threads a2_one) = [1, 0]
   \<and> fst (A2_thread_create 7 8 (Some 1000) (Some 100) a2_one) = 1
   \<and> map (\<lambda>b. TID (heap a1_created b)) [0, 1] = [0, 1]
   \<and> A1_thread_create 2 7 8 None None a1_created = Some (THREAD_NOMORE, a1_created)
   \<and> map_option fst (A1_thread_create 4 7 8 (Some 2) (Some 2000) a1_created) = Some 2"
proof -
  have 1: "threads a2_one \<noteq> []" and 2: "threads a2_full \<noteq> []"
    and 3: "\<forall>i<length (threads a2_full). state (threads a2_full ! i) \<noteq> 0"
    and 4: "state (threads a2_one ! 1) = 0 \<and> (\<forall>i<1. state (threads a2_one ! i) \<noteq> 0)"
    and 5: "1 < length (threads a2_one)"
    by (simp_all add: a2_one_def a2_full_def mk_thread_def less_Suc_eq)
  have 6: "blocks (heap a1_created) (Some (current_thread_p a1_created)) [0, 1]"
    and t: "TID (heap a1_created 0) = 0" "TID (heap a1_created 1) = 1"
    by (simp_all add: a1_created_def a1_init_def a1_evals)
  have 7: "2 \<notin> set [0, 1::nat]" by simp
  have 8: "\<forall>i. 0 < i \<and> i < int 2 \<longrightarrow> i \<in> (\<lambda>b. TID (heap a1_created b)) ` set [0, 1]"
    using t by auto
  have 9: "(2::int) \<notin> (\<lambda>b. TID (heap a1_created b)) ` set [0, 1]" using t by simp
  have 10: "\<forall>i. 0 < i \<and> i < (2::int) \<longrightarrow> i \<in> (\<lambda>b. TID (heap a1_created b)) ` set [0, 1]"
    using t by auto
  have n2: "0 < (2::nat)" and n4: "0 < (4::nat)" by simp_all
  note full = C5_thread_create [OF 2 6 7 n2, where fn = 7 and parg = 8 and stack = None
      and new_node = None and new_thread = None]
  note free = C5_thread_create [OF 1 6 7 n4, where fn = 7 and parg = 8 and st = 1000
      and nd = 100]
  have a: "fst (A2_thread_create 7 8 None None a2_full) = THREAD_NOMORE"
    using full [THEN conjunct1] 3 by simp
  have b: "fst (A2_thread_create 7 8 (Some 1000) (Some 100) a2_one) = 1"
    using free [THEN conjunct2, THEN conjunct1, THEN spec, of 1] 4 5 by simp
  have c: "A1_thread_create 2 7 8 None None a1_created = Some (THREAD_NOMORE, a1_created)"
    using full [THEN conjunct2, THEN conjunct2, THEN conjunct1] 8 by simp
  have "\<exists>s'. A1_thread_create 4 7 8 (Some 2) (Some 2000) a1_created = Some (2, s')"
    using C5_thread_create [OF 1 6 7 n4, where fn = 7 and parg = 8 and st = 2000,
        THEN conjunct2, THEN conjunct2, THEN conjunct2, THEN spec, of 2] 9 10
    by auto
  then have d: "map_option fst (A1_thread_create 4 7 8 (Some 2) (Some 2000) a1_created) = Some 2"
    by auto
  have m: "map (\<lambda>x. state x) (threads a2_full) = [1, 1]"
    "map (\<lambda>x. state x) (threads a2_one) = [1, 0]"
    by (simp_all add: a2_one_def a2_full_def mk_thread_def)
  have m1: "map (\<lambda>b. TID (heap a1_created b)) [0, 1] = [0, 1]" using t by simp
  from 1 2 6 7 m m1 a b c d show ?thesis by blast
qed

text \<open>
  The claim fails in A1 once the initial thread has exited: in \<open>a1_main_exited\<close> the run
  list holds thread 1 alone, no live thread holds identifier 0, and \<^verbatim>\<open>thread_create\<close>
  returns 2.
\<close>

theorem C5_create_skips_zero_counterexample:
  "A1_run (A1_thread_exit 0 a1_created) = Some (Enter 7 8 a1_main_exited)
   \<and> blocks (heap a1_main_exited) (Some (current_thread_p a1_main_exited)) [1]
   \<and> TID (heap a1_main_exited 1) = 1
   \<and> map_option fst (A1_thread_create 4 9 9 (Some 2) (Some 2000) a1_main_exited) = Some 2"
  by (simp add: a1_main_exited_def a1_created_def a1_init_def a1_evals)

text \<open>
  C6. The claim: \<^verbatim>\<open>thread_yield\<close> fails with no-runnable-thread for "any" on an
  empty ready queue and with invalid-target for an explicit identifier that is not in
  the ready queue; otherwise the caller goes to the tail of the ready queue (not for
  "self"), control goes to the target, and the call returns the identifier of the
  target when the caller is resumed. The caller's own identifier is an explicit
  identifier that is not in the ready queue, and the call succeeds (it is treated as
  "self"). As amended, for a caller in state 1 and ready threads with non-negative
  identifiers different from the caller's:
  \<^item> "any" on an empty ready queue returns \<^verbatim>\<open>THREAD_NONE\<close>, and an explicit identifier
    other than the caller's own that no ready thread holds returns \<^verbatim>\<open>THREAD_INVALID\<close>;
    the table, the ready queue and the current thread are unchanged;
  \<^item> "any" on a non-empty queue takes the head, an explicit identifier the first ready
    thread that holds it (in A2: provided its slot is in use and the node for the caller
    is allocated): the call ends in \<^verbatim>\<open>setcontext\<close> on the target, the ready queue is
    the former one without the target and with the caller at its tail, the caller is in
    state 2 and its saved context holds the identifier of the target;
  \<^item> "self" ends in \<^verbatim>\<open>setcontext\<close> on the caller, with the ready queue unchanged;
  \<^item> a thread resumed at a context saved by \<^verbatim>\<open>thread_yield\<close>, in state 2, returns from
    \<^verbatim>\<open>thread_yield\<close> with the identifier held in that context.
\<close>

theorem C6_thread_yield:
  assumes "0 \<le> current_thread t"
      and "nat (current_thread t) < length (threads t)"
      and "length (threads t) < 2 ^ 31"
      and "state (threads t ! nat (current_thread t)) = 1"
      and "\<forall>n\<in>set (ready_head t). 0 \<le> snd n \<and> snd n \<noteq> current_thread t"
      and "blocks (heap s) (Some (current_thread_p s)) (current_thread_p s # rs)"
      and "state (heap s (current_thread_p s)) = 1"
      and "\<forall>a\<in>set rs. 0 \<le> TID (heap s a) \<and> TID (heap s a) < int N
             \<and> TID (heap s a) \<noteq> TID (heap s (current_thread_p s))"
      and "N < 2 ^ 31"
  shows "(ready_head t = [] \<longrightarrow>
            (\<exists>t'. A2_thread_yield new_node THREAD_ANY t = Return THREAD_NONE t'
               \<and> threads t' = threads t \<and> ready_head t' = ready_head t
               \<and> current_thread t' = current_thread t))
       \<and> (\<forall>w. w \<noteq> THREAD_ANY \<and> w \<noteq> THREAD_SELF \<and> w \<noteq> current_thread t
               \<and> w \<notin> snd ` set (ready_head t) \<longrightarrow>
            (\<exists>t'. A2_thread_yield new_node w t = Return THREAD_INVALID t'
               \<and> threads t' = threads t \<and> ready_head t' = ready_head t
               \<and> current_thread t' = current_thread t))
       \<and> (\<forall>w l1 n l2.
            ready_head t = l1 @ n # l2
            \<and> ((w = THREAD_ANY \<and> l1 = [])
               \<or> (w = snd n \<and> w \<notin> snd ` set l1 \<and> nat w < length (threads t)
                   \<and> state (threads t ! nat w) \<noteq> 0)) \<longrightarrow>
            (\<exists>t'. A2_thread_yield (Some nd) w t = Jump t'
               \<and> current_thread t' = snd n
               \<and> ready_head t' = l1 @ l2 @ [(nd, current_thread t)]
               \<and> length (threads t') = length (threads t)
               \<and> state (threads t' ! nat (current_thread t)) = 2
               \<and> context (threads t' ! nat (current_thread t))
                   = A2_InYield (snd n) (interrupts_enabled t)
               \<and> (\<forall>i. i \<noteq> nat (current_thread t) \<longrightarrow> threads t' ! i = threads t ! i)))
       \<and> (\<exists>t'. A2_thread_yield new_node THREAD_SELF t = Jump t'
               \<and> current_thread t' = current_thread t
               \<and> ready_head t' = ready_head t
               \<and> state (threads t' ! nat (current_thread t)) = 2
               \<and> context (threads t' ! nat (current_thread t))
                   = A2_InYield (current_thread t) (interrupts_enabled t))
       \<and> (\<forall>u w en.
            context (threads u ! nat (current_thread u)) = A2_InYield w en
            \<and> state (threads u ! nat (current_thread u)) = 2 \<longrightarrow>
            A2_setcontext u
            = Return w ((free_stuff u)\<lparr>threads := (threads u)[nat (current_thread u) :=
                           (threads u ! nat (current_thread u))\<lparr>state := 1\<rparr>],
                         interrupts_enabled := en\<rparr>))
       \<and> (rs = [] \<longrightarrow> A1_thread_yield N THREAD_ANY s = Some (Return THREAD_NONE s))
       \<and> (\<forall>w. w \<noteq> THREAD_ANY \<and> w \<noteq> THREAD_SELF \<and> w \<noteq> TID (heap s (current_thread_p s))
               \<and> w \<notin> (\<lambda>a. TID (heap s a)) ` set rs \<longrightarrow>
            A1_thread_yield N w s = Some (Return THREAD_INVALID s))
       \<and> (\<forall>w l1 n l2.
            rs = l1 @ n # l2
            \<and> ((w = THREAD_ANY \<and> l1 = [])
               \<or> (w = TID (heap s n) \<and> w \<notin> (\<lambda>a. TID (heap s a)) ` set l1)) \<longrightarrow>
            (\<exists>s'. A1_thread_yield N w s = Some (Jump s')
               \<and> current_thread_p s' = n
               \<and> blocks (heap s') (Some n) (n # l1 @ l2 @ [current_thread_p s])
               \<and> state (heap s' (current_thread_p s)) = 2
               \<and> context (heap s' (current_thread_p s)) = A1_InYield (TID (heap s n)) n
               \<and> (\<forall>a. TID (heap s' a) = TID (heap s a))
               \<and> (\<forall>a. a \<noteq> current_thread_p s \<longrightarrow> state (heap s' a) = state (heap s a)
                      \<and> context (heap s' a) = context (heap s a))))
       \<and> (\<exists>s'. A1_thread_yield N THREAD_SELF s = Some (Jump s')
               \<and> current_thread_p s' = current_thread_p s
               \<and> blocks (heap s') (Some (current_thread_p s)) (current_thread_p s # rs)
               \<and> state (heap s' (current_thread_p s)) = 2
               \<and> context (heap s' (current_thread_p s))
                   = A1_InYield (TID (heap s (current_thread_p s))) (current_thread_p s))
       \<and> (\<forall>u w wanted.
            context (heap u (current_thread_p u)) = A1_InYield w wanted
            \<and> state (heap u (current_thread_p u)) = 2 \<longrightarrow>
            A1_setcontext u = Return w (set_state (current_thread_p u) 1 (free_stuff u)))"
  apply (intro conjI allI impI)
  subgoal using A2_yield_any_empty [of t new_node] by simp
  subgoal for w using A2_yield_invalid [of w t new_node] by simp
  subgoal for w l1 n l2 using A2_yield_target [OF assms(1-5), of l1 n l2 w nd] by blast
  subgoal by (rule A2_yield_to_self [OF assms(1,2,4,5)])
  subgoal for u w en using A2_setcontext_resumed [of u w en] by blast
  subgoal using assms(6) by (intro A1_yield_any_empty) simp
  subgoal for w using A1_yield_invalid [of w s rs N] assms(6) by simp
  subgoal for w l1 n l2 using A1_yield_target [OF assms(6-9), of l1 n l2 w] by blast
  subgoal by (rule A1_yield_to_self [OF assms(6-8)])
  subgoal for u w wanted using A1_setcontext_resumed [of u w wanted] by blast
  done


theorem C6_thread_yield_witness:
  "current_thread a2_three = 0 \<and> length (threads a2_three) = 4
   \<and> state (threads a2_three ! 0) = 1 \<and> ready_head a2_three = [(100, 1), (101, 2)]
   \<and> blocks (heap a1_three) (Some (current_thread_p a1_three)) [0, 1, 2]
   \<and> state (heap a1_three 0) = 1
   \<and> map (\<lambda>a. TID (heap a1_three a)) [0, 1, 2] = [0, 1, 2]
   \<and> (\<exists>t'. A2_thread_yield None 3 a2_three = Return THREAD_INVALID t'
          \<and> threads t' = threads a2_three \<and> ready_head t' = ready_head a2_three
          \<and> current_thread t' = current_thread a2_three)
   \<and> (\<exists>t'. A2_thread_yield (Some 102) 2 a2_three = Jump t'
          \<and> current_thread t' = 2 \<and> ready_head t' = [(100, 1), (102, 0)])
   \<and> (\<exists>t'. A2_thread_yield (Some 102) THREAD_ANY a2_three = Jump t'
          \<and> current_thread t' = 1 \<and> ready_head t' = [(101, 2), (102, 0)])
   \<and> A1_thread_yield 4 3 a1_three = Some (Return THREAD_INVALID a1_three)
   \<and> (\<exists>s'. A1_thread_yield 4 2 a1_three = Some (Jump s')
          \<and> current_thread_p s' = 2 \<and> blocks (heap s') (Some 2) [2, 1, 0])
   \<and> (\<exists>s'. A1_thread_yield 4 THREAD_ANY a1_three = Some (Jump s')
          \<and> current_thread_p s' = 1 \<and> blocks (heap s') (Some 1) [1, 2, 0])
   \<and> ready_head a2_one = []
   \<and> (\<exists>t'. A2_thread_yield None THREAD_ANY a2_one = Return THREAD_NONE t'
          \<and> threads t' = threads a2_one \<and> ready_head t' = ready_head a2_one
          \<and> current_thread t' = current_thread a2_one)
   \<and> next (heap a1_init (current_thread_p a1_init)) = None
   \<and> A1_thread_yield 4 THREAD_ANY a1_init = Some (Return THREAD_NONE a1_init)"
proof -
  have t: "current_thread a2_three = 0" "length (threads a2_three) = 4"
    "state (threads a2_three ! 0) = 1" "ready_head a2_three = [(100, 1), (101, 2)]"
    "state (threads a2_three ! 2) = 1"
    by (simp_all add: a2_three_def mk_thread_def)
  have p: "current_thread_p a1_three = 0" "state (heap a1_three 0) = 1"
    "blocks (heap a1_three) (Some (current_thread_p a1_three)) [0, 1, 2]"
    "map (\<lambda>a. TID (heap a1_three a)) [0, 1, 2] = [0, 1, 2]"
    by (simp_all add: a1_three_def mk_thread_def)
  have 1: "0 \<le> current_thread a2_three" using t by simp
  have 2: "nat (current_thread a2_three) < length (threads a2_three)" using t by simp
  have 3: "length (threads a2_three) < 2 ^ 31" using t by simp
  have 4: "state (threads a2_three ! nat (current_thread a2_three)) = 1" using t by simp
  have 5: "\<forall>n\<in>set (ready_head a2_three). 0 \<le> snd n \<and> snd n \<noteq> current_thread a2_three"
    using t by simp
  have 6: "blocks (heap a1_three) (Some (current_thread_p a1_three))
             (current_thread_p a1_three # [1, 2])"
    using p by simp
  have 7: "state (heap a1_three (current_thread_p a1_three)) = 1" using p by simp
  have 8: "\<forall>a\<in>set [1, 2]. 0 \<le> TID (heap a1_three a) \<and> TID (heap a1_three a) < int 4
             \<and> TID (heap a1_three a) \<noteq> TID (heap a1_three (current_thread_p a1_three))"
    using p by simp
  have 9: "(4::nat) < 2 ^ 31" by simp
  note th = C6_thread_yield [OF 1 2 3 4 5 6 7 8 9]
  have a: "\<exists>t'. A2_thread_yield None 3 a2_three = Return THREAD_INVALID t'
          \<and> threads t' = threads a2_three \<and> ready_head t' = ready_head a2_three
          \<and> current_thread t' = current_thread a2_three"
    using th [where new_node = None, THEN conjunct2, THEN conjunct1, THEN spec, of 3] t
    by (simp add: thread_consts)
  have "\<exists>t'. A2_thread_yield (Some 102) 2 a2_three = Jump t'
          \<and> current_thread t' = snd (101::nat, 2::int)
          \<and> ready_head t' = [(100, 1)] @ [] @ [(102, current_thread a2_three)]"
    using th [where nd = 102, THEN conjunct2, THEN conjunct2, THEN conjunct1,
        THEN spec, of 2, THEN spec, of "[(100, 1)]", THEN spec, of "(101, 2)",
        THEN spec, of "[]"] t
    by auto
  then have b: "\<exists>t'. A2_thread_yield (Some 102) 2 a2_three = Jump t'
          \<and> current_thread t' = 2 \<and> ready_head t' = [(100, 1), (102, 0)]"
    using t by simp
  have "\<exists>t'. A2_thread_yield (Some 102) THREAD_ANY a2_three = Jump t'
          \<and> current_thread t' = snd (100::nat, 1::int)
          \<and> ready_head t' = [] @ [(101, 2)] @ [(102, current_thread a2_three)]"
    using th [where nd = 102, THEN conjunct2, THEN conjunct2, THEN conjunct1,
        THEN spec, of THREAD_ANY, THEN spec, of "[]", THEN spec, of "(100, 1)",
        THEN spec, of "[(101, 2)]"] t
    by auto
  then have c: "\<exists>t'. A2_thread_yield (Some 102) THREAD_ANY a2_three = Jump t'
          \<and> current_thread t' = 1 \<and> ready_head t' = [(101, 2), (102, 0)]"
    using t by simp
  note th1 = th [THEN conjunct2, THEN conjunct2, THEN conjunct2, THEN conjunct2, THEN conjunct2]
  have d: "A1_thread_yield 4 3 a1_three = Some (Return THREAD_INVALID a1_three)"
    using th1 [THEN conjunct2, THEN conjunct1, THEN spec, of 3] p
    by (simp add: thread_consts)
  have "\<exists>s'. A1_thread_yield 4 2 a1_three = Some (Jump s')
          \<and> current_thread_p s' = 2
          \<and> blocks (heap s') (Some 2) (2 # [1] @ [] @ [current_thread_p a1_three])"
    using th1 [THEN conjunct2, THEN conjunct2, THEN conjunct1,
        THEN spec, of 2, THEN spec, of "[1]", THEN spec, of 2, THEN spec, of "[]"] p
    by auto
  then have e: "\<exists>s'. A1_thread_yield 4 2 a1_three = Some (Jump s')
          \<and> current_thread_p s' = 2 \<and> blocks (heap s') (Some 2) [2, 1, 0]"
    using p by simp
  have "\<exists>s'. A1_thread_yield 4 THREAD_ANY a1_three = Some (Jump s')
          \<and> current_thread_p s' = 1
          \<and> blocks (heap s') (Some 1) (1 # [] @ [2] @ [current_thread_p a1_three])"
    using th1 [THEN conjunct2, THEN conjunct2, THEN conjunct1,
        THEN spec, of THREAD_ANY, THEN spec, of "[]", THEN spec, of 1, THEN spec, of "[2]"] p
    by auto
  then have f: "\<exists>s'. A1_thread_yield 4 THREAD_ANY a1_three = Some (Jump s')
          \<and> current_thread_p s' = 1 \<and> blocks (heap s') (Some 1) [1, 2, 0]"
    using p by simp
  have o: "current_thread a2_one = 0" "length (threads a2_one) = 2"
    "state (threads a2_one ! 0) = 1" "ready_head a2_one = []"
    by (simp_all add: a2_one_def mk_thread_def)
  have i: "current_thread_p a1_init = 0" "state (heap a1_init 0) = 1"
    "next (heap a1_init 0) = None"
    by (simp_all add: a1_init_def mk_thread_def)
  have o1: "0 \<le> current_thread a2_one" using o by simp
  have o2: "nat (current_thread a2_one) < length (threads a2_one)" using o by simp
  have o3: "length (threads a2_one) < 2 ^ 31" using o by simp
  have o4: "state (threads a2_one ! nat (current_thread a2_one)) = 1" using o by simp
  have o5: "\<forall>n\<in>set (ready_head a2_one). 0 \<le> snd n \<and> snd n \<noteq> current_thread a2_one"
    using o by simp
  have i6: "blocks (heap a1_init) (Some (current_thread_p a1_init)) (current_thread_p a1_init # [])"
    using i by simp
  have i7: "state (heap a1_init (current_thread_p a1_init)) = 1" using i by simp
  have i8: "\<forall>a\<in>set []. 0 \<le> TID (heap a1_init a) \<and> TID (heap a1_init a) < int 4
             \<and> TID (heap a1_init a) \<noteq> TID (heap a1_init (current_thread_p a1_init))"
    by simp
  note th0 = C6_thread_yield [OF o1 o2 o3 o4 o5 i6 i7 i8 9]
  have g: "\<exists>t'. A2_thread_yield None THREAD_ANY a2_one = Return THREAD_NONE t'
          \<and> threads t' = threads a2_one \<and> ready_head t' = ready_head a2_one
          \<and> current_thread t' = current_thread a2_one"
    using th0 [where new_node = None, THEN conjunct1] o by simp
  have h: "A1_thread_yield 4 THREAD_ANY a1_init = Some (Return THREAD_NONE a1_init)"
    using th0 [THEN conjunct2, THEN conjunct2, THEN conjunct2, THEN conjunct2, THEN conjunct2,
        THEN conjunct1]
    by simp
  have i': "next (heap a1_init (current_thread_p a1_init)) = None" using i by simp
  from t(1-4) p(2-4) a b c d e f o(4) g i' h show ?thesis by blast
qed

text \<open>
  The claim fails at the caller's own identifier: in \<open>a2_three\<close> and \<open>a1_three\<close> thread 0
  runs and is not in the ready queue, and \<^verbatim>\<open>thread_yield(0)\<close> returns 0 with the caller
  still running, not \<^verbatim>\<open>THREAD_INVALID\<close>.
\<close>

theorem C6_yield_own_id_counterexample:
  "current_thread a2_three = 0 \<and> 0 \<notin> snd ` set (ready_head a2_three)
   \<and> A2_run (A2_thread_yield None 0 a2_three)
       = Some (Return 0 (a2_three\<lparr>threads := (threads a2_three)[0 :=
                           (threads a2_three ! 0)\<lparr>context := A2_InYield 0 True\<rparr>]\<rparr>))
   \<and> A1_thread_id a1_three = 0
   \<and> blocks (heap a1_three) (next (heap a1_three (current_thread_p a1_three))) [1, 2]
   \<and> 0 \<notin> (\<lambda>a. TID (heap a1_three a)) ` set [1, 2]
   \<and> Option.bind (A1_thread_yield 4 0 a1_three) A1_run
       = Some (Return 0 (set_context 0 (A1_InYield 0 0) a1_three))"
  by (simp add: a2_three_def a1_three_def A2_thread_yield_def A2_yield_switch_def
      A2_yield_resume_def A2_setcontext_def A2_run.simps A2_thread_id_def interrupts_off_def
      interrupts_set_def fun_upd_twist a1_evals)


text \<open>
  C8. The claim: \<^verbatim>\<open>thread_sleep(queue)\<close> puts the caller at the tail of the queue and
  transfers control to the next READY thread; only if no READY thread exists it fails
  with no-runnable-thread. \<^verbatim>\<open>thread_sleep\<close> of A2 takes the thread to run next from
  \<^verbatim>\<open>current_thread->next\<close>, a pointer that no function of A2's table writes, and does
  not read the list \<^verbatim>\<open>ready_head\<close>, where \<^verbatim>\<open>thread_create\<close> puts the READY threads
  and where \<^verbatim>\<open>thread_yield\<close> and \<^verbatim>\<open>thread_exit\<close> take the next thread from. In the
  state that \<^verbatim>\<open>thread_init\<close> and two calls of \<^verbatim>\<open>thread_create\<close> build, the threads 1
  and 2 are READY (state 1, in the ready list, in this order) behind the running thread
  0, and \<^verbatim>\<open>thread_sleep\<close> on an empty queue returns \<^verbatim>\<open>THREAD_NONE\<close>: the caller is
  still running, the queue is still empty, nothing has changed. In the same state
  \<^verbatim>\<open>thread_yield(THREAD_ANY)\<close> transfers control to thread 1.
\<close>

theorem C8_thread_sleep_ignores_ready_list:
  "current_thread a2_created = 0
   \<and> map state (threads a2_created) = [1, 1, 1, 0]
   \<and> ready_head a2_created = [(100, 1), (101, 2)]
   \<and> A2_thread_sleep (Some \<lparr>head = None\<rparr>) a2_created
       = Some (Some \<lparr>head = None\<rparr>, Return THREAD_NONE a2_created)
   \<and> (\<exists>s'. A2_thread_yield (Some 102) THREAD_ANY a2_created = Jump s'
            \<and> current_thread s' = 1)"
  by (simp add: a2_created_eq A2_sleep_no_next mk_thread_def A2_thread_yield_def
      A2_yield_switch_def A2_yield_resume_def ready_enqueue_def A2_thread_id_def
      interrupts_off_def free_stuff_def thread_consts Let_def)

text \<open>
  C9. \<^verbatim>\<open>thread_yield\<close> called with the caller's own identifier takes the branch of
  \<^verbatim>\<open>THREAD_SELF\<close>, although the caller is not in the ready queue: the two calls are
  the same, in A2 and in A1. Called by a running thread (state 1), the call saves the
  caller's context, resumes it at once and returns the caller's identifier; the caller
  is still the current thread, and the ready queue, the states of the threads and
  (A2) the interrupt flag are as before the call.
\<close>

theorem C9_yield_own_id:
  assumes "0 \<le> current_thread t"
      and "nat (current_thread t) < length (threads t)"
      and "state (threads t ! nat (current_thread t)) = 1"
      and "\<forall>n\<in>set (ready_head t). 0 \<le> snd n \<and> snd n \<noteq> current_thread t"
      and "0 \<le> TID (heap s (current_thread_p s))"
      and "state (heap s (current_thread_p s)) = 1"
      and "blocks (heap s) (next (heap s (current_thread_p s))) rs"
      and "\<forall>a\<in>set rs. 0 \<le> TID (heap s a) \<and> TID (heap s a) \<noteq> TID (heap s (current_thread_p s))"
  shows "A2_thread_yield new_node (current_thread t) t = A2_thread_yield new_node THREAD_SELF t
       \<and> (\<exists>t'. A2_run (A2_thread_yield new_node (current_thread t) t)
                 = Some (Return (current_thread t) t')
             \<and> current_thread t' = current_thread t
             \<and> ready_head t' = ready_head t
             \<and> interrupts_enabled t' = interrupts_enabled t
             \<and> length (threads t') = length (threads t)
             \<and> (\<forall>i. state (threads t' ! i) = state (threads t ! i)
                    \<and> TID (threads t' ! i) = TID (threads t ! i)))
       \<and> A1_thread_yield N (A1_thread_id s) s = A1_thread_yield N THREAD_SELF s
       \<and> (\<exists>s'. Option.bind (A1_thread_yield N (A1_thread_id s) s) A1_run
                 = Some (Return (A1_thread_id s) s')
             \<and> current_thread_p s' = current_thread_p s
             \<and> (\<forall>a. next (heap s' a) = next (heap s a) \<and> state (heap s' a) = state (heap s a)
                    \<and> TID (heap s' a) = TID (heap s a)))"
proof -
  have a2_own: "A2_thread_yield new_node (current_thread t) t
                = A2_yield_switch (current_thread t) (interrupts_enabled t)
                    (t\<lparr>interrupts_enabled := False\<rparr>)"
    using assms(1,4) by (intro A2_yield_self_branch) (auto simp: THREAD_ANY_def)
  have a2_self: "A2_thread_yield new_node THREAD_SELF t
                = A2_yield_switch (current_thread t) (interrupts_enabled t)
                    (t\<lparr>interrupts_enabled := False\<rparr>)"
    using assms(4) by (intro A2_yield_self_branch) (auto simp: THREAD_ANY_def THREAD_SELF_def)
  have hd: "0 \<le> TID (heap s n) \<and> TID (heap s n) \<noteq> TID (heap s (current_thread_p s))"
    if "next (heap s (current_thread_p s)) = Some n" for n
  proof -
    from that assms(7) have "n \<in> set rs" by (cases rs) auto
    with assms(8) show ?thesis by blast
  qed
  have a1_own: "A1_thread_yield N (TID (heap s (current_thread_p s))) s
                = Some (A1_yield_switch (TID (heap s (current_thread_p s))) (current_thread_p s) s)"
    using assms(5) hd by (intro A1_yield_self_branch) (auto simp: THREAD_ANY_def)
  have a1_self: "A1_thread_yield N THREAD_SELF s
                = Some (A1_yield_switch (TID (heap s (current_thread_p s))) (current_thread_p s) s)"
    using hd by (intro A1_yield_self_branch) (auto simp: THREAD_ANY_def THREAD_SELF_def)
  show ?thesis
    using A2_yield_self_run [OF assms(1-3)] A1_yield_self_run [OF assms(6)]
    by (simp add: a2_own a2_self a1_own a1_self A1_thread_id_def)
qed

theorem C9_yield_own_id_witness:
  "0 \<le> current_thread a2_full
   \<and> nat (current_thread a2_full) < length (threads a2_full)
   \<and> state (threads a2_full ! nat (current_thread a2_full)) = 1
   \<and> ready_head a2_full = [(100, 1)] \<and> current_thread a2_full = 0
   \<and> 0 \<le> TID (heap a1_created (current_thread_p a1_created))
   \<and> state (heap a1_created (current_thread_p a1_created)) = 1
   \<and> blocks (heap a1_created) (next (heap a1_created (current_thread_p a1_created))) [1]
   \<and> TID (heap a1_created 1) = 1
   \<and> TID (heap a1_created (current_thread_p a1_created)) = 0
   \<and> A2_thread_yield None 0 a2_full = A2_thread_yield None THREAD_SELF a2_full
   \<and> A1_thread_yield 4 0 a1_created = A1_thread_yield 4 THREAD_SELF a1_created"
proof -
  have 1: "0 \<le> current_thread a2_full"
    and 2: "nat (current_thread a2_full) < length (threads a2_full)"
    and 3: "state (threads a2_full ! nat (current_thread a2_full)) = 1"
    and 4: "\<forall>n\<in>set (ready_head a2_full). 0 \<le> snd n \<and> snd n \<noteq> current_thread a2_full"
    and c2: "current_thread a2_full = 0"
    by (simp_all add: a2_full_def mk_thread_def)
  have 5: "0 \<le> TID (heap a1_created (current_thread_p a1_created))"
    and 6: "state (heap a1_created (current_thread_p a1_created)) = 1"
    and 7: "blocks (heap a1_created) (next (heap a1_created (current_thread_p a1_created))) [1]"
    and 8: "\<forall>a\<in>set [1]. 0 \<le> TID (heap a1_created a)
         \<and> TID (heap a1_created a) \<noteq> TID (heap a1_created (current_thread_p a1_created))"
    and c1: "A1_thread_id a1_created = 0"
    and t1: "TID (heap a1_created 1) = 1"
    and t0: "TID (heap a1_created (current_thread_p a1_created)) = 0"
    by (simp_all add: a1_created_def a1_init_def a1_evals)
  have r: "ready_head a2_full = [(100, 1)]" by (simp add: a2_full_def)
  from C9_yield_own_id [OF 1 2 3 4 5 6 7 8, of None 4]
  have "A2_thread_yield None 0 a2_full = A2_thread_yield None THREAD_SELF a2_full
        \<and> A1_thread_yield 4 0 a1_created = A1_thread_yield 4 THREAD_SELF a1_created"
    by (simp add: c1 c2)
  with 1 2 3 5 6 7 r c2 t1 t0 show ?thesis by blast
qed

text \<open>
  C10. \<^verbatim>\<open>wait_queue_destroy\<close> asserts that the queue is empty: on a queue that still
  holds a blocked thread the assertion fails and the process is aborted; there is no
  error return. On an empty queue the function returns.
\<close>

theorem C10_wait_queue_destroy_asserts_empty:
  "(wq_head s wq \<noteq> None \<longrightarrow> wait_queue_destroy wq s = Abort)
   \<and> (wq_head s wq = None \<longrightarrow> wait_queue_destroy wq s = Done s)"
  by (simp add: wait_queue_destroy_def)

theorem C10_wait_queue_destroy_witness:
  "wq_head a2_waiting 50 \<noteq> None \<and> wait_queue_destroy 50 a2_waiting = Abort
   \<and> wq_head a2_waiting 51 = None \<and> wait_queue_destroy 51 a2_waiting = Done a2_waiting"
  using C10_wait_queue_destroy_asserts_empty [of a2_waiting 50]
    C10_wait_queue_destroy_asserts_empty [of a2_waiting 51]
  by (simp add: a2_waiting_def)

end
